theory Spec2Isabelle
  imports Main "HOL-Library.Word" "HOL-Library.AList"
begin

section \<open>The workflow manager of prio-server: scheduling engine and task enqueuers\<close>

text \<open>
  A shallow embedding of \<^verbatim>\<open>workflow-manager/main.go\<close> (the scheduling engine) and of
  the \<^verbatim>\<open>task\<close> package (tasks, markers, the two enqueuers).

  Go strings are byte sequences: \<open>string\<close> (a list of 8-bit \<open>char\<close>s), and \<open>length\<close>
  is Go's \<open>len\<close>.
\<close>

subsection \<open>Errors\<close>

text \<open>
  Every error value the modelled code creates or passes on. \<open>Opaque\<close> is an error
  returned by a collaborator (the transport, the bucket, the batch path parser); the
  wrapping constructors are the \<^verbatim>\<open>fmt.Errorf("...: %w", err)\<close> calls of the source;
  \<open>SliceBoundsOutOfRange\<close> and \<open>IndexOutOfRange\<close> are the run-time panics of a slice
  expression and of an index expression.
\<close>

datatype error =
    Opaque string
  | MarshalingTaskToJSON error
  | FailedToPublishTask error
  | AggregationIDMismatch string string
  | SliceBoundsOutOfRange
  | IndexOutOfRange

subsection \<open>Go's \<^verbatim>\<open>time\<close> package, as far as the engine uses it\<close>

text \<open>
  A \<^verbatim>\<open>time.Duration\<close> is an \<^verbatim>\<open>int64\<close> count of nanoseconds. A \<^verbatim>\<open>time.Time\<close> is an
  instant, here the (unbounded) number of nanoseconds since the zero instant, January 1
  of year 1, 00:00:00 UTC, together with its Location, here the offset of that location
  in seconds east of UTC (as \<^verbatim>\<open>time.FixedZone\<close>; \<open>0\<close> is UTC). The arithmetic of
  instants compares and moves the instant only; the Location matters to \<open>Format\<close>.
  Go saturates \<^verbatim>\<open>Add\<close> at the ends of its representable range, some 292 billion years
  away from year 1; the model's instants have no ends.
\<close>

type_synonym Duration = "64 word"

record Time =
  instant :: int
  zoneOffset :: int

definition Second :: int where "Second = 1000000000"
definition Hour :: Duration where "Hour = 3600000000000"

definition Add :: "Time \<Rightarrow> Duration \<Rightarrow> Time" where
  "Add t d = t\<lparr>instant := instant t + sint d\<rparr>"

text \<open>\<^verbatim>\<open>t.Sub(u)\<close> is the duration \<open>t - u\<close>, saturated at the ends of \<^verbatim>\<open>int64\<close>.\<close>

definition Sub :: "Time \<Rightarrow> Time \<Rightarrow> Duration" where
  "Sub t u =
     (let d = instant t - instant u
      in if d > 2 ^ 63 - 1 then word_of_int (2 ^ 63 - 1)
         else if d < - (2 ^ 63) then word_of_int (- (2 ^ 63))
         else word_of_int d)"

definition Before :: "Time \<Rightarrow> Time \<Rightarrow> bool" where
  "Before t u \<longleftrightarrow> instant t < instant u"

text \<open>
  \<^verbatim>\<open>t.Truncate(d)\<close> rounds \<open>t\<close> down to a multiple of \<open>d\<close> since the zero instant, and
  returns \<open>t\<close> unchanged when \<open>d \<le> 0\<close>.
\<close>

definition Truncate :: "Time \<Rightarrow> Duration \<Rightarrow> Time" where
  "Truncate t d =
     (if sint d \<le> 0 then t else t\<lparr>instant := instant t - instant t mod sint d\<rparr>)"

definition UTC :: "Time \<Rightarrow> Time" where
  "UTC t = t\<lparr>zoneOffset := 0\<rparr>"

subsubsection \<open>Calendar fields and \<^verbatim>\<open>Format\<close>\<close>

definition isLeap :: "int \<Rightarrow> bool" where
  "isLeap y \<longleftrightarrow> y mod 4 = 0 \<and> (y mod 100 \<noteq> 0 \<or> y mod 400 = 0)"

text \<open>
  From the number of days since January 1 of year 1 to the year and the zero-based day
  of that year, in the proleptic Gregorian calendar: cycles of 400, 100, 4 and 1 years,
  the last cycle of each kind being one day longer.
\<close>

definition yearDay :: "int \<Rightarrow> int \<times> int" where
  "yearDay d =
     (let n400 = d div 146097; d1 = d mod 146097;
          n100 = min 3 (d1 div 36524); d2 = d1 - 36524 * n100;
          n4 = d2 div 1461; d3 = d2 mod 1461;
          n1 = min 3 (d3 div 365); yday = d3 - 365 * n1
      in (400 * n400 + 100 * n100 + 4 * n4 + n1 + 1, yday))"

definition daysBefore :: "int list" where
  "daysBefore = [0, 31, 59, 90, 120, 151, 181, 212, 243, 273, 304, 334, 365]"

text \<open>From the day of the year to the month and the day of the month, both from 1.\<close>

definition monthDay :: "bool \<Rightarrow> int \<Rightarrow> int \<times> int" where
  "monthDay leap yday =
     (if leap \<and> yday = 59 then (2, 29)
      else
        let day = (if leap \<and> yday > 59 then yday - 1 else yday);
            m = nat (day div 31);
            e = daysBefore ! (m + 1)
        in if day \<ge> e then (int m + 2, day - e + 1)
           else (int m + 1, day - daysBefore ! m + 1))"

record Civil =
  cYear :: int
  cMonth :: int
  cDay :: int
  cHour :: int
  cMinute :: int

text \<open>The calendar fields of an instant, read in the time's own Location.\<close>

definition civil :: "Time \<Rightarrow> Civil" where
  "civil t =
     (let secs = instant t div Second + zoneOffset t;
          days = secs div 86400; r = secs mod 86400;
          (y, yd) = yearDay days;
          (m, d) = monthDay (isLeap y) yd
      in \<lparr>cYear = y, cMonth = m, cDay = d, cHour = r div 3600, cMinute = r mod 3600 div 60\<rparr>)"

definition digitChar :: "nat \<Rightarrow> char" where
  "digitChar n = ''0123456789'' ! n"

fun digits :: "nat \<Rightarrow> string" where
  "digits n = (if n < 10 then [digitChar n] else digits (n div 10) @ [digitChar (n mod 10)])"

declare digits.simps [simp del]

text \<open>
  \<^verbatim>\<open>appendInt\<close> of package time: the decimal digits of \<open>x\<close>, padded with zeros to
  \<open>width\<close> digits, after a minus sign when \<open>x\<close> is negative.
\<close>

definition appendInt :: "int \<Rightarrow> nat \<Rightarrow> string" where
  "appendInt x width =
     (let ds = digits (nat \<bar>x\<bar>)
      in (if x < 0 then ''-'' else []) @ replicate (width - length ds) (CHR ''0'') @ ds)"

text \<open>
  \<^verbatim>\<open>t.Format(layout)\<close> for the two layouts of this repository, \<^verbatim>\<open>2006/01/02/15/04\<close> and
  \<^verbatim>\<open>2006-01-02-15-04\<close>, which differ in the separator only: year, month, day, hour and
  minute of \<open>t\<close> in the Location of \<open>t\<close>. Nothing here converts to UTC.
\<close>

definition Format :: "Time \<Rightarrow> char \<Rightarrow> string" where
  "Format t sep =
     (let c = civil t
      in appendInt (cYear c) 4 @ [sep] @ appendInt (cMonth c) 2 @ [sep] @
         appendInt (cDay c) 2 @ [sep] @ appendInt (cHour c) 2 @ [sep] @
         appendInt (cMinute c) 2)"

subsection \<open>Intervals (main.go)\<close>

record interval =
  ibegin :: Time
  iend :: Time

definition fmtTime :: "Time \<Rightarrow> string" where
  "fmtTime t = Format t (CHR ''/'')"

text \<open>
  The \<^verbatim>\<open>utils.Clock\<close> of a run is the instant its \<^verbatim>\<open>Now()\<close> returns: one instant for
  the whole run, as with the fixed clock of the tests.
\<close>

type_synonym Clock = Time

definition Now :: "Clock \<Rightarrow> Time" where
  "Now clock = clock"

definition aggregationInterval :: "Clock \<Rightarrow> Duration \<Rightarrow> Duration \<Rightarrow> interval" where
  "aggregationInterval clock aggregationPeriod gracePeriod =
     (let e = Truncate (Add (Now clock) (- gracePeriod)) aggregationPeriod
      in \<lparr>ibegin = Add e (- aggregationPeriod), iend = e\<rparr>)"

subsection \<open>Go's \<^verbatim>\<open>strings\<close> and \<^verbatim>\<open>regexp\<close> packages, as far as the engine uses them\<close>

definition HasPrefix :: "string \<Rightarrow> string \<Rightarrow> bool" where
  "HasPrefix s prefix \<longleftrightarrow> take (length prefix) s = prefix"

definition TrimPrefix :: "string \<Rightarrow> string \<Rightarrow> string" where
  "TrimPrefix s prefix = (if HasPrefix s prefix then drop (length prefix) s else s)"

text \<open>\<^verbatim>\<open>strings.ReplaceAll(s, old, new)\<close> where \<open>old\<close> is one ASCII character.\<close>

definition ReplaceAll :: "string \<Rightarrow> char \<Rightarrow> string \<Rightarrow> string" where
  "ReplaceAll s old new = concat (map (\<lambda>c. if c = old then new else [c]) s)"

definition byte :: "char \<Rightarrow> nat" where
  "byte c = of_char c"

definition inRange :: "char \<Rightarrow> nat \<Rightarrow> nat \<Rightarrow> bool" where
  "inRange c lo hi \<longleftrightarrow> lo \<le> byte c \<and> byte c \<le> hi"

text \<open>
  The number of bytes of the first rune of a string, as \<^verbatim>\<open>utf8.DecodeRuneInString\<close>
  reads it: a byte that does not start a well-formed UTF-8 sequence is a rune of its
  own (the replacement character, of width 1).
\<close>

fun runeWidth :: "string \<Rightarrow> nat" where
  "runeWidth [] = 0"
| "runeWidth (c # cs) =
     (if byte c < 0x80 then 1
      else if inRange c 0xC2 0xDF then
        (case cs of c1 # _ \<Rightarrow> if inRange c1 0x80 0xBF then 2 else 1 | _ \<Rightarrow> 1)
      else if inRange c 0xE0 0xEF then
        (case cs of
           c1 # c2 # _ \<Rightarrow>
             if inRange c1 (if byte c = 0xE0 then 0xA0 else 0x80)
                           (if byte c = 0xED then 0x9F else 0xBF)
                \<and> inRange c2 0x80 0xBF
             then 3 else 1
         | _ \<Rightarrow> 1)
      else if inRange c 0xF0 0xF4 then
        (case cs of
           c1 # c2 # c3 # _ \<Rightarrow>
             if inRange c1 (if byte c = 0xF0 then 0x90 else 0x80)
                           (if byte c = 0xF4 then 0x8F else 0xBF)
                \<and> inRange c2 0x80 0xBF \<and> inRange c3 0x80 0xBF
             then 4 else 1
         | _ \<Rightarrow> 1)
      else 1)"

text \<open>The character class \<^verbatim>\<open>[A-Za-z0-9-]\<close>.\<close>

definition nameChar :: "char \<Rightarrow> bool" where
  "nameChar c \<longleftrightarrow>
     inRange c 0x41 0x5A \<or> inRange c 0x61 0x7A \<or> inRange c 0x30 0x39 \<or> c = CHR ''-''"

text \<open>
  \<^verbatim>\<open>regexp.MustCompile("[^A-Za-z0-9-]").ReplaceAllLiteralString(s, "-")\<close>: every rune
  outside the class, whatever its width in bytes, becomes one \<^verbatim>\<open>-\<close>.
\<close>

function ReplaceAllLiteralString :: "string \<Rightarrow> string" where
  "ReplaceAllLiteralString [] = []"
| "ReplaceAllLiteralString (c # cs) =
     (if nameChar c then c else CHR ''-'')
       # ReplaceAllLiteralString (drop (runeWidth (c # cs) - 1) cs)"
  by pat_completeness auto
termination
  by (relation "measure length") auto

text \<open>
  \<^verbatim>\<open>strings.ToLower\<close> on ASCII strings, the only ones it is applied to here (see
  \<open>ReplaceAllLiteralString_chars\<close> below): \<^verbatim>\<open>A\<close> to \<^verbatim>\<open>Z\<close> move to \<^verbatim>\<open>a\<close> to \<^verbatim>\<open>z\<close>.
\<close>

definition toLowerChar :: "char \<Rightarrow> char" where
  "toLowerChar c = (if inRange c 0x41 0x5A then char_of (byte c + 32) else c)"

definition ToLower :: "string \<Rightarrow> string" where
  "ToLower s = map toLowerChar s"

subsection \<open>Batch paths and job names (main.go)\<close>

text \<open>
  The fields of \<^verbatim>\<open>batchpath.BatchPath\<close> that the engine reads.
\<close>

record BatchPath =
  bpAggregationID :: string
  bpID :: string
  bpTime :: Time

text \<open>
  \<open>maxLength\<close> is an \<^verbatim>\<open>int\<close> in the source, and always 27 or 30: a natural number
  here.
\<close>

definition aggregationJobNameFragment :: "string \<Rightarrow> nat \<Rightarrow> string" where
  "aggregationJobNameFragment aggregationID maxLength =
     (let idForJobName = ReplaceAllLiteralString aggregationID;
          idForJobName = (if length idForJobName > maxLength
                          then take maxLength idForJobName else idForJobName)
      in ToLower idForJobName)"

text \<open>
  The slice expression \<^verbatim>\<open>[:16]\<close> panics when the string has fewer than 16 bytes; the
  panic is the \<open>Inl\<close> result.
\<close>

definition intakeJobNameForBatchPath :: "BatchPath \<Rightarrow> error + string" where
  "intakeJobNameForBatchPath path =
     (let fragment = aggregationJobNameFragment (bpAggregationID path) 27;
          noDashes = ReplaceAll (bpID path) (CHR ''-'') []
      in if length noDashes < 16 then Inl SliceBoundsOutOfRange
         else Inr (''i-'' @ fragment @ ''-'' @ take 16 noDashes @ ''-'' @
                   ReplaceAll (fmtTime (bpTime path)) (CHR ''/'') ''-''))"

text \<open>
  The job name of an aggregation task, the \<^verbatim>\<open>taskName\<close> that
  \<^verbatim>\<open>enqueueAggregationTasks\<close> builds in place.
\<close>

definition aggregationTaskName :: "string \<Rightarrow> interval \<Rightarrow> string" where
  "aggregationTaskName aggregationID intv =
     ''a-'' @ aggregationJobNameFragment aggregationID 30 @ ''-'' @
     ReplaceAll (fmtTime (ibegin intv)) (CHR ''/'') ''-''"

subsection \<open>Tasks and their markers (package task)\<close>

type_synonym Timestamp = Time

definition stringWithFormat :: "Timestamp \<Rightarrow> char \<Rightarrow> string" where
  "stringWithFormat t sep = Format t sep"

definition String :: "Timestamp \<Rightarrow> string" where
  "String t = stringWithFormat t (CHR ''/'')"

definition MarkerString :: "Timestamp \<Rightarrow> string" where
  "MarkerString t = stringWithFormat t (CHR ''-'')"

text \<open>
  \<^verbatim>\<open>json.Marshal\<close> of a string that needs no escape: the string between double
  quotes. The strings of \<open>String\<close> are made of digits, \<^verbatim>\<open>/\<close> and \<^verbatim>\<open>-\<close> (lemma
  \<open>String_chars\<close> below), none of which \<^verbatim>\<open>encoding/json\<close> escapes.
\<close>

definition jsonString :: "string \<Rightarrow> string" where
  "jsonString s = [CHR 0x22] @ s @ [CHR 0x22]"

definition MarshalJSON :: "Timestamp \<Rightarrow> error + string" where
  "MarshalJSON t = Inr (jsonString (String t))"

record Batch =
  bID :: string
  bTime :: Timestamp

record Aggregation =
  aAggregationID :: string
  aAggregationStart :: Timestamp
  aAggregationEnd :: Timestamp
  aBatches :: "Batch list"

record IntakeBatch =
  iAggregationID :: string
  iBatchID :: string
  iDate :: Timestamp

text \<open>The \<^verbatim>\<open>Task\<close> interface, implemented by the two kinds of task.\<close>

datatype Task = IntakeTask IntakeBatch | AggregationTask Aggregation

fun Marker :: "Task \<Rightarrow> string" where
  "Marker (AggregationTask a) =
     ''aggregate-'' @ aAggregationID a @ ''-'' @ MarkerString (aAggregationStart a) @ ''-'' @
     MarkerString (aAggregationEnd a)"
| "Marker (IntakeTask i) =
     ''intake-'' @ iAggregationID i @ ''-'' @ MarkerString (iDate i) @ ''-'' @ iBatchID i"

subsection \<open>The collaborators of a run\<close>

text \<open>
  \<^verbatim>\<open>bucket.TaskMarkerWriter\<close> is an interface with one method,
  \<^verbatim>\<open>WriteTaskMarker(marker) error\<close>. A call stores the marker object and returns
  \<^verbatim>\<open>nil\<close>, or returns \<^verbatim>\<open>nil\<close> without storing anything (a bucket in dry-run mode), or
  returns an error. Which one is the writer's business: the model takes it as a
  function of the marker.
\<close>

datatype writeOutcome = Stored | NotStored | WriteFailed error

record TaskMarkerWriter =
  writeTaskMarker :: "string \<Rightarrow> writeOutcome"

text \<open>A \<^verbatim>\<open>batchv1.Job\<close> is opaque: only the names of the existing jobs are consulted.\<close>

type_synonym Job = unit

text \<open>
  What a run leaves behind: the tasks passed to \<^verbatim>\<open>Enqueue\<close> (oldest first), the calls
  of \<^verbatim>\<open>WriteTaskMarker\<close> with their outcomes, the two counters \<^verbatim>\<open>intakesStarted\<close> and
  \<^verbatim>\<open>aggregationsStarted\<close>, and the failures that the completions log (format string
  and error). The progress lines of the log, and the local counters that feed only
  them, are left out.
\<close>

record World =
  enqueued :: "Task list"
  markerWrites :: "(string \<times> writeOutcome) list"
  intakesStarted :: nat
  aggregationsStarted :: nat
  logged :: "(string \<times> error) list"

definition initialWorld :: World where
  "initialWorld =
     \<lparr>enqueued = [], markerWrites = [], intakesStarted = 0, aggregationsStarted = 0,
      logged = []\<rparr>"

text \<open>The markers stored so far, in the order of their writing.\<close>

definition storedMarkers :: "World \<Rightarrow> string list" where
  "storedMarkers w = map fst (filter (\<lambda>(m, out). out = Stored) (markerWrites w))"

definition WriteTaskMarker :: "TaskMarkerWriter \<Rightarrow> string \<Rightarrow> World \<Rightarrow> error option \<times> World" where
  "WriteTaskMarker bucket marker w =
     (let out = writeTaskMarker bucket marker;
          w' = w\<lparr>markerWrites := markerWrites w @ [(marker, out)]\<rparr>
      in (case out of WriteFailed err \<Rightarrow> Some err | _ \<Rightarrow> None, w'))"

definition Printf :: "string \<Rightarrow> error \<Rightarrow> World \<Rightarrow> World" where
  "Printf format err w = w\<lparr>logged := logged w @ [(format, err)]\<rparr>"

subsection \<open>The enqueuers (package task)\<close>

text \<open>
  An enqueuer is its kind, its \<^verbatim>\<open>dryRun\<close> flag and the two things it calls:
  \<^verbatim>\<open>json.Marshal\<close> on the task, and the publish operation of its transport, which
  answers with an error or with none.

  The completion is a function of the error it is given (\<open>None\<close> is \<^verbatim>\<open>nil\<close>) that
  acts on a state; the enqueuers do nothing else to that state. The PubSub enqueuer
  runs its body in a goroutine that \<^verbatim>\<open>Stop()\<close> waits for, the SNS enqueuer runs it
  before \<^verbatim>\<open>Enqueue\<close> returns; the model runs both at the call. The engine reads
  nothing of what a completion writes, so the tasks it enqueues and the marker writes
  it makes itself do not depend on when the completions run.
\<close>

datatype EnqueuerKind = GCPPubSub | AWSSNS

record Enqueuer =
  kind :: EnqueuerKind
  dryRun :: bool
  jsonMarshal :: "Task \<Rightarrow> error + string"
  publish :: "string \<Rightarrow> error option"

definition GCPPubSubEnqueuer_Enqueue ::
  "Enqueuer \<Rightarrow> Task \<Rightarrow> (error option \<Rightarrow> 's \<Rightarrow> 's) \<Rightarrow> 's \<Rightarrow> 's" where
  "GCPPubSubEnqueuer_Enqueue e task completion s =
     (case jsonMarshal e task of
        Inl err \<Rightarrow> completion (Some (MarshalingTaskToJSON err)) s
      | Inr jsonTask \<Rightarrow>
          if dryRun e then completion None s
          else
            let s' = (case publish e jsonTask of
                        Some err \<Rightarrow> completion (Some (FailedToPublishTask err)) s
                      | None \<Rightarrow> s)
            in completion None s')"

definition AWSSNSEnqueuer_Enqueue ::
  "Enqueuer \<Rightarrow> Task \<Rightarrow> (error option \<Rightarrow> 's \<Rightarrow> 's) \<Rightarrow> 's \<Rightarrow> 's" where
  "AWSSNSEnqueuer_Enqueue e task completion s =
     (case jsonMarshal e task of
        Inl err \<Rightarrow> completion (Some (MarshalingTaskToJSON err)) s
      | Inr jsonTask \<Rightarrow>
          if dryRun e then completion None s
          else
            (case publish e jsonTask of
               Some err \<Rightarrow> completion (Some (FailedToPublishTask err)) s
             | None \<Rightarrow> completion None s))"

text \<open>
  A call of \<^verbatim>\<open>Enqueue\<close> through the \<^verbatim>\<open>Enqueuer\<close> interface: the task is noted as
  enqueued, and the implementation of the enqueuer's kind runs.
\<close>

definition Enqueue :: "Enqueuer \<Rightarrow> Task \<Rightarrow> (error option \<Rightarrow> World \<Rightarrow> World) \<Rightarrow> World \<Rightarrow> World" where
  "Enqueue e task completion w =
     (let w' = w\<lparr>enqueued := enqueued w @ [task]\<rparr>
      in case kind e of
           GCPPubSub \<Rightarrow> GCPPubSubEnqueuer_Enqueue e task completion w'
         | AWSSNS \<Rightarrow> AWSSNSEnqueuer_Enqueue e task completion w')"

subsection \<open>The scheduling engine (main.go)\<close>

definition withinInterval :: "BatchPath list \<Rightarrow> interval \<Rightarrow> BatchPath list" where
  "withinInterval batches intv =
     filter (\<lambda>bp. \<not> Before (bpTime bp) (ibegin intv) \<and> Before (bpTime bp) (iend intv)) batches"

text \<open>
  A Go map from aggregation IDs to lists of batches is an association list with one
  entry for each key; \<open>output[k]\<close> of a missing key is the empty list.
\<close>

type_synonym aggregationMap = "(string \<times> BatchPath list) list"

definition groupByAggregationID :: "BatchPath list \<Rightarrow> aggregationMap" where
  "groupByAggregationID batches =
     foldl (\<lambda>output v.
              AList.update (bpAggregationID v)
                ((case map_of output (bpAggregationID v) of None \<Rightarrow> [] | Some l \<Rightarrow> l) @ [v])
                output)
           [] batches"

text \<open>
  A \<^verbatim>\<open>range\<close> loop visits the entries of a map in an order that the runtime chooses.
  The choice is a parameter, a list of numbers that says where each entry is put among
  those after it; every order comes from some list.
\<close>

fun rangeOrder :: "nat list \<Rightarrow> 'a list \<Rightarrow> 'a list" where
  "rangeOrder _ [] = []"
| "rangeOrder [] xs = xs"
| "rangeOrder (n # ns) (x # xs) =
     (let rest = rangeOrder ns xs; i = n mod (length rest + 1)
      in take i rest @ x # drop i rest)"

text \<open>The completion of an intake task, the function literal in \<^verbatim>\<open>enqueueIntakeTasks\<close>.\<close>

definition intakeCompletion ::
  "TaskMarkerWriter \<Rightarrow> IntakeBatch \<Rightarrow> error option \<Rightarrow> World \<Rightarrow> World" where
  "intakeCompletion ownValidationBucket intakeTask err w =
     (case err of
        Some e \<Rightarrow> Printf ''failed to enqueue intake task: %s'' e w
      | None \<Rightarrow>
          (case WriteTaskMarker ownValidationBucket (Marker (IntakeTask intakeTask)) w of
             (Some e, w') \<Rightarrow> Printf ''failed to write intake task marker: %s'' e w'
           | (None, w') \<Rightarrow> w'\<lparr>intakesStarted := intakesStarted w' + 1\<rparr>))"

text \<open>
  The completion of an aggregation task, the function literal in
  \<^verbatim>\<open>enqueueAggregationTasks\<close>. After a failed marker write it logs and goes on to the
  counter.
\<close>

definition aggregationCompletion ::
  "TaskMarkerWriter \<Rightarrow> Aggregation \<Rightarrow> error option \<Rightarrow> World \<Rightarrow> World" where
  "aggregationCompletion ownValidationBucket aggregationTask err w =
     (case err of
        Some e \<Rightarrow> Printf ''failed to enqueue aggregation task: %s'' e w
      | None \<Rightarrow>
          let w' = (case WriteTaskMarker ownValidationBucket
                           (Marker (AggregationTask aggregationTask)) w of
                      (Some e, w') \<Rightarrow> Printf ''failed to write aggregation task marker: %s'' e w'
                    | (None, w') \<Rightarrow> w')
          in w'\<lparr>aggregationsStarted := aggregationsStarted w' + 1\<rparr>)"

text \<open>
  The loop of \<^verbatim>\<open>enqueueIntakeTasks\<close> over the ready batches. The result is the error
  the function returns (\<open>None\<close> is \<^verbatim>\<open>nil\<close>), or the panic that ends it, and the world
  as it is then.
\<close>

fun enqueueIntakeTasks ::
  "Clock \<Rightarrow> BatchPath list \<Rightarrow> Duration \<Rightarrow> string set \<Rightarrow> (string \<rightharpoonup> Job) \<Rightarrow>
   TaskMarkerWriter \<Rightarrow> Enqueuer \<Rightarrow> World \<Rightarrow> error option \<times> World" where
  "enqueueIntakeTasks clk [] ageLimit taskMarkers jobs ownValidationBucket enqueuer w = (None, w)"
| "enqueueIntakeTasks clk (batch # rest) ageLimit taskMarkers jobs ownValidationBucket enqueuer w =
     (let age = Sub (Now clk) (bpTime batch)
      in if sint age > sint ageLimit
         then enqueueIntakeTasks clk rest ageLimit taskMarkers jobs ownValidationBucket enqueuer w
         else
           let intakeTask = \<lparr>iAggregationID = bpAggregationID batch, iBatchID = bpID batch,
                              iDate = bpTime batch\<rparr>
           in if Marker (IntakeTask intakeTask) \<in> taskMarkers
              then enqueueIntakeTasks clk rest ageLimit taskMarkers jobs ownValidationBucket
                     enqueuer w
              else
                (case intakeJobNameForBatchPath batch of
                   Inl panic \<Rightarrow> (Some panic, w)
                 | Inr taskName \<Rightarrow>
                     if jobs taskName \<noteq> None
                     then
                       (case WriteTaskMarker ownValidationBucket (Marker (IntakeTask intakeTask)) w of
                          (Some err, w') \<Rightarrow> (Some err, w')
                        | (None, w') \<Rightarrow>
                            enqueueIntakeTasks clk rest ageLimit taskMarkers jobs
                              ownValidationBucket enqueuer w')
                     else
                       enqueueIntakeTasks clk rest ageLimit taskMarkers jobs ownValidationBucket
                         enqueuer
                         (Enqueue enqueuer (IntakeTask intakeTask)
                            (intakeCompletion ownValidationBucket intakeTask) w)))"

text \<open>
  The loop of \<^verbatim>\<open>enqueueAggregationTasks\<close> over the entries of the map, in the order
  given. The inner loop over the batches of an entry returns at the first batch whose
  aggregation ID is not that of the first batch; \<^verbatim>\<open>readyBatches[0]\<close> panics on an empty
  list.
\<close>

fun aggregationLoop ::
  "aggregationMap \<Rightarrow> interval \<Rightarrow> string set \<Rightarrow> (string \<rightharpoonup> Job) \<Rightarrow>
   TaskMarkerWriter \<Rightarrow> Enqueuer \<Rightarrow> World \<Rightarrow> error option \<times> World" where
  "aggregationLoop [] intv taskMarkers jobs ownValidationBucket enqueuer w = (None, w)"
| "aggregationLoop ((key, readyBatches) # rest) intv taskMarkers jobs ownValidationBucket enqueuer w =
     (case readyBatches of
        [] \<Rightarrow> (Some IndexOutOfRange, w)
      | first # _ \<Rightarrow>
          let aggregationID = bpAggregationID first;
              batches = map (\<lambda>batchPath. \<lparr>bID = bpID batchPath, bTime = bpTime batchPath\<rparr>)
                            readyBatches
          in (case find (\<lambda>batchPath. aggregationID \<noteq> bpAggregationID batchPath) readyBatches of
                Some batchPath \<Rightarrow>
                  (Some (AggregationIDMismatch (bpAggregationID batchPath) aggregationID), w)
              | None \<Rightarrow>
                  let aggregationTask =
                        \<lparr>aAggregationID = aggregationID, aAggregationStart = ibegin intv,
                         aAggregationEnd = iend intv, aBatches = batches\<rparr>
                  in if Marker (AggregationTask aggregationTask) \<in> taskMarkers
                     then aggregationLoop rest intv taskMarkers jobs ownValidationBucket enqueuer w
                     else
                       let taskName = aggregationTaskName aggregationID intv
                       in if jobs taskName \<noteq> None
                          then
                            (case WriteTaskMarker ownValidationBucket
                                    (Marker (AggregationTask aggregationTask)) w of
                               (Some err, w') \<Rightarrow> (Some err, w')
                             | (None, w') \<Rightarrow>
                                 aggregationLoop rest intv taskMarkers jobs ownValidationBucket
                                   enqueuer w')
                          else
                            aggregationLoop rest intv taskMarkers jobs ownValidationBucket enqueuer
                              (Enqueue enqueuer (AggregationTask aggregationTask)
                                 (aggregationCompletion ownValidationBucket aggregationTask) w)))"

definition enqueueAggregationTasks ::
  "nat list \<Rightarrow> aggregationMap \<Rightarrow> interval \<Rightarrow> string set \<Rightarrow> (string \<rightharpoonup> Job) \<Rightarrow>
   TaskMarkerWriter \<Rightarrow> Enqueuer \<Rightarrow> World \<Rightarrow> error option \<times> World" where
  "enqueueAggregationTasks order batchesByID intv taskMarkers jobs ownValidationBucket enqueuer w =
     (if length batchesByID = 0 then (None, w)
      else aggregationLoop (rangeOrder order batchesByID) intv taskMarkers jobs
             ownValidationBucket enqueuer w)"

record scheduleTasksConfig =
  isFirst :: bool
  clock :: Clock
  intakeFiles :: "string list"
  ownValidationFiles :: "string list"
  peerValidationFiles :: "string list"
  existingJobs :: "string \<rightharpoonup> Job"
  intakeTaskEnqueuer :: Enqueuer
  aggregationTaskEnqueuer :: Enqueuer
  ownValidationBucket :: TaskMarkerWriter
  maxAge :: Duration
  aggregationPeriod :: Duration
  gracePeriod :: Duration

text \<open>
  The set of the tasks that have a marker object: the keys of the listing under
  \<^verbatim>\<open>task-markers/\<close>, without that prefix.
\<close>

definition taskMarkerSet :: "string list \<Rightarrow> string set" where
  "taskMarkerSet files =
     set (map (\<lambda>object. TrimPrefix object ''task-markers/'')
            (filter (\<lambda>object. HasPrefix object ''task-markers/'') files))"

text \<open>
  Modelled from the spec: \<^verbatim>\<open>utils.Index\<close>, which is not in the sources: the
  index is 0 for the instance that is first, and 1 for the other one. The infix is
  \<^verbatim>\<open>fmt.Sprintf("validity_%d", utils.Index(...))\<close>.
\<close>

definition validityInfix :: "bool \<Rightarrow> string" where
  "validityInfix first = ''validity_'' @ (if first then ''0'' else ''1'')"

text \<open>
  The pieces of \<^verbatim>\<open>scheduleTasks\<close> that the properties below speak of, under names of
  their own: the interval of the intake batches worth processing, and the intersection
  of the own and the peer validations by batch ID, which keeps the peer's descriptors.
\<close>

definition intakeInterval :: "Clock \<Rightarrow> Duration \<Rightarrow> interval" where
  "intakeInterval clk ageLimit =
     \<lparr>ibegin = Add (Now clk) (- ageLimit), iend = Add (Now clk) (24 * Hour)\<rparr>"

definition intersectValidations :: "BatchPath list \<Rightarrow> BatchPath list \<Rightarrow> BatchPath list" where
  "intersectValidations ownValidationBatches peerValidationBatches =
     (let ownValidationsSet = set (map bpID ownValidationBatches)
      in filter (\<lambda>peerValidationBatch. bpID peerValidationBatch \<in> ownValidationsSet)
           peerValidationBatches)"

text \<open>
  \<^verbatim>\<open>scheduleTasks\<close>. The function \<^verbatim>\<open>batchpath.ReadyBatches\<close> is its first parameter here,
  the order of the \<^verbatim>\<open>range\<close> loop over the aggregation map its second. The result is
  \<open>None\<close> when the function returns, and the error of \<^verbatim>\<open>log.Fatal\<close> or the panic when the
  run ends before that. The two calls of \<^verbatim>\<open>Stop()\<close> at the end wait for completions
  that, here, have run already.
\<close>

definition scheduleTasks ::
  "(string list \<Rightarrow> string \<Rightarrow> error + BatchPath list) \<Rightarrow> nat list \<Rightarrow> scheduleTasksConfig \<Rightarrow>
   World \<Rightarrow> error option \<times> World" where
  "scheduleTasks ReadyBatches order config w =
     (case ReadyBatches (intakeFiles config) ''batch'' of
        Inl err \<Rightarrow> (Some err, w)
      | Inr intakeBatches \<Rightarrow>
          let taskMarkers = taskMarkerSet (ownValidationFiles config);
              currentIntakeBatches =
                withinInterval intakeBatches (intakeInterval (clock config) (maxAge config))
          in (case enqueueIntakeTasks (clock config) currentIntakeBatches (maxAge config)
                     taskMarkers (existingJobs config) (ownValidationBucket config)
                     (intakeTaskEnqueuer config) w of
                (Some err, w1) \<Rightarrow> (Some err, w1)
              | (None, w1) \<Rightarrow>
                  (case ReadyBatches (ownValidationFiles config) (validityInfix (isFirst config)) of
                     Inl err \<Rightarrow> (Some err, w1)
                   | Inr ownValidationBatches \<Rightarrow>
                       (case ReadyBatches (peerValidationFiles config)
                               (validityInfix (\<not> isFirst config)) of
                          Inl err \<Rightarrow> (Some err, w1)
                        | Inr peerValidationBatches \<Rightarrow>
                            let aggregationBatches =
                                  intersectValidations ownValidationBatches peerValidationBatches;
                                intv = aggregationInterval (clock config)
                                         (aggregationPeriod config) (gracePeriod config);
                                aggregationBatches = withinInterval aggregationBatches intv;
                                aggregationMap = groupByAggregationID aggregationBatches
                            in enqueueAggregationTasks order aggregationMap intv taskMarkers
                                 (existingJobs config) (ownValidationBucket config)
                                 (aggregationTaskEnqueuer config) w1))))"

subsection \<open>Notions that the properties are stated with\<close>

definition isDigit :: "char \<Rightarrow> bool" where
  "isDigit c \<longleftrightarrow> inRange c 0x30 0x39"

text \<open>The characters of a formatted time: digits, the minus sign, the separator.\<close>

definition stampChar :: "char \<Rightarrow> char \<Rightarrow> bool" where
  "stampChar sep c \<longleftrightarrow> isDigit c \<or> c = CHR ''-'' \<or> c = sep"

text \<open>The regular expression \<^verbatim>\<open>^[a-z0-9-]{1,63}$\<close> of legal job names.\<close>

definition jobNameChar :: "char \<Rightarrow> bool" where
  "jobNameChar c \<longleftrightarrow> inRange c 0x61 0x7A \<or> inRange c 0x30 0x39 \<or> c = CHR ''-''"

definition matchesJobNameRegexp :: "string \<Rightarrow> bool" where
  "matchesJobNameRegexp s \<longleftrightarrow> 1 \<le> length s \<and> length s \<le> 63 \<and> list_all jobNameChar s"

text \<open>
  The tasks that a run considers, before the checks on markers and jobs: the intake task
  of each batch that the age check lets through, and the aggregation task of each entry
  of the aggregation map.
\<close>

definition intakeTaskOf :: "BatchPath \<Rightarrow> IntakeBatch" where
  "intakeTaskOf batch =
     \<lparr>iAggregationID = bpAggregationID batch, iBatchID = bpID batch, iDate = bpTime batch\<rparr>"

definition intakeCandidates :: "Clock \<Rightarrow> Duration \<Rightarrow> BatchPath list \<Rightarrow> Task list" where
  "intakeCandidates clk ageLimit batches =
     map (\<lambda>batch. IntakeTask (intakeTaskOf batch))
       (filter (\<lambda>batch. \<not> sint (Sub (Now clk) (bpTime batch)) > sint ageLimit) batches)"

definition batchOf :: "BatchPath \<Rightarrow> Batch" where
  "batchOf batchPath = \<lparr>bID = bpID batchPath, bTime = bpTime batchPath\<rparr>"

definition aggregationTaskOf :: "interval \<Rightarrow> BatchPath list \<Rightarrow> Aggregation" where
  "aggregationTaskOf intv readyBatches =
     \<lparr>aAggregationID = bpAggregationID (hd readyBatches), aAggregationStart = ibegin intv,
      aAggregationEnd = iend intv, aBatches = map batchOf readyBatches\<rparr>"

definition aggregationCandidates :: "interval \<Rightarrow> aggregationMap \<Rightarrow> Task list" where
  "aggregationCandidates intv batchesByID =
     map (\<lambda>(key, readyBatches). AggregationTask (aggregationTaskOf intv readyBatches)) batchesByID"

definition currentIntakeBatches :: "scheduleTasksConfig \<Rightarrow> BatchPath list \<Rightarrow> BatchPath list" where
  "currentIntakeBatches config intakeBatches =
     withinInterval intakeBatches (intakeInterval (clock config) (maxAge config))"

definition runInterval :: "scheduleTasksConfig \<Rightarrow> interval" where
  "runInterval config =
     aggregationInterval (clock config) (aggregationPeriod config) (gracePeriod config)"

definition aggregationBatchesOf ::
  "scheduleTasksConfig \<Rightarrow> BatchPath list \<Rightarrow> BatchPath list \<Rightarrow> BatchPath list" where
  "aggregationBatchesOf config ownValidationBatches peerValidationBatches =
     withinInterval (intersectValidations ownValidationBatches peerValidationBatches)
       (runInterval config)"

definition candidates ::
  "(string list \<Rightarrow> string \<Rightarrow> error + BatchPath list) \<Rightarrow> scheduleTasksConfig \<Rightarrow> Task list" where
  "candidates ReadyBatches config =
     (case ReadyBatches (intakeFiles config) ''batch'' of
        Inl err \<Rightarrow> []
      | Inr intakeBatches \<Rightarrow>
          intakeCandidates (clock config) (maxAge config)
            (currentIntakeBatches config intakeBatches)) @
     (case ReadyBatches (ownValidationFiles config) (validityInfix (isFirst config)) of
        Inl err \<Rightarrow> []
      | Inr ownValidationBatches \<Rightarrow>
          (case ReadyBatches (peerValidationFiles config) (validityInfix (\<not> isFirst config)) of
             Inl err \<Rightarrow> []
           | Inr peerValidationBatches \<Rightarrow>
               aggregationCandidates (runInterval config)
                 (groupByAggregationID
                    (aggregationBatchesOf config ownValidationBatches peerValidationBatches))))"

text \<open>
  The job name that the engine computes for a task: for an intake task from the fields
  of its batch, for an aggregation task from its aggregation ID and the beginning of its
  interval.
\<close>

fun taskJobName :: "Task \<Rightarrow> error + string" where
  "taskJobName (IntakeTask i) =
     intakeJobNameForBatchPath
       \<lparr>bpAggregationID = iAggregationID i, bpID = iBatchID i, bpTime = iDate i\<rparr>"
| "taskJobName (AggregationTask a) =
     Inr (aggregationTaskName (aAggregationID a)
            \<lparr>ibegin = aAggregationStart a, iend = aAggregationEnd a\<rparr>)"

text \<open>
  A task is new when it has no marker and no job, and to be healed when it has no marker
  but has a job.
\<close>

definition isNew :: "string set \<Rightarrow> (string \<rightharpoonup> Job) \<Rightarrow> Task \<Rightarrow> bool" where
  "isNew taskMarkers jobs task \<longleftrightarrow>
     Marker task \<notin> taskMarkers \<and>
     (case taskJobName task of Inl panic \<Rightarrow> False | Inr name \<Rightarrow> jobs name = None)"

definition toHeal :: "string set \<Rightarrow> (string \<rightharpoonup> Job) \<Rightarrow> Task \<Rightarrow> bool" where
  "toHeal taskMarkers jobs task \<longleftrightarrow>
     Marker task \<notin> taskMarkers \<and>
     (case taskJobName task of Inl panic \<Rightarrow> False | Inr name \<Rightarrow> jobs name \<noteq> None)"

text \<open>The marker of the aggregation task of an aggregation ID over an interval.\<close>

definition aggregationMarker :: "string \<Rightarrow> interval \<Rightarrow> string" where
  "aggregationMarker aggregationID intv =
     ''aggregate-'' @ aggregationID @ ''-'' @ MarkerString (ibegin intv) @ ''-'' @
     MarkerString (iend intv)"

text \<open>The batches of the aggregation tasks among the tasks enqueued.\<close>

definition aggregatedBatches :: "Task list \<Rightarrow> Batch set" where
  "aggregatedBatches tasks =
     \<Union> (set (map (\<lambda>task. case task of AggregationTask a \<Rightarrow> set (aBatches a)
                                    | IntakeTask i \<Rightarrow> {}) tasks))"

text \<open>
  The candidates of a run in the order in which the run comes to them: those of the
  intake loop and then, when the validations could be read, those of the aggregation
  loop in the order of its \<^verbatim>\<open>range\<close>. There is none when the intake listing cannot be read.
\<close>

definition visited ::
  "(string list \<Rightarrow> string \<Rightarrow> error + BatchPath list) \<Rightarrow> nat list \<Rightarrow> scheduleTasksConfig \<Rightarrow>
   Task list" where
  "visited ReadyBatches order config =
     (case ReadyBatches (intakeFiles config) ''batch'' of
        Inl err \<Rightarrow> []
      | Inr intakeBatches \<Rightarrow>
          intakeCandidates (clock config) (maxAge config)
            (currentIntakeBatches config intakeBatches) @
          (case ReadyBatches (ownValidationFiles config) (validityInfix (isFirst config)) of
             Inl err \<Rightarrow> []
           | Inr ownValidationBatches \<Rightarrow>
               (case ReadyBatches (peerValidationFiles config)
                       (validityInfix (\<not> isFirst config)) of
                  Inl err \<Rightarrow> []
                | Inr peerValidationBatches \<Rightarrow>
                    aggregationCandidates (runInterval config)
                      (rangeOrder order
                         (groupByAggregationID
                            (aggregationBatchesOf config ownValidationBatches
                               peerValidationBatches))))))"


text \<open>
  What the two loops do with their candidates, said once for both: a candidate with a
  marker is passed over; one whose job name panics ends the run; one whose job exists
  has its marker written, which ends the run when the write fails; any other one is
  enqueued with the completion of its kind.
\<close>

fun completionOf :: "TaskMarkerWriter \<Rightarrow> Task \<Rightarrow> error option \<Rightarrow> World \<Rightarrow> World" where
  "completionOf bucket (IntakeTask i) = intakeCompletion bucket i"
| "completionOf bucket (AggregationTask a) = aggregationCompletion bucket a"


text \<open>The key of the marker object of a marker string.\<close>

definition markerKey :: "string \<Rightarrow> string" where
  "markerKey marker = ''task-markers/'' @ marker"

subsection \<open>Example inputs\<close>

text \<open>
  The scenarios of the specification: the clock at 2021-04-02 10:30 UTC, a maximal age of
  one hour, aggregations of three hours and a grace period of one hour; one intake batch
  of 10:00 and one validation batch of 07:00, both of the aggregation \<^verbatim>\<open>agg1\<close>.
\<close>

definition exampleNow :: Time where
  "exampleNow = \<lparr>instant = 63752956200000000000, zoneOffset = 0\<rparr>"

definition exampleIntakeBatch :: BatchPath where
  "exampleIntakeBatch =
     \<lparr>bpAggregationID = ''agg1'', bpID = ''0f0f0f0f-0f0f-0f0f-0f0f-0f0f0f0f0f0f'',
      bpTime = \<lparr>instant = 63752954400000000000, zoneOffset = 0\<rparr>\<rparr>"

definition exampleValidationBatch :: BatchPath where
  "exampleValidationBatch =
     \<lparr>bpAggregationID = ''agg1'', bpID = ''uuid-B'',
      bpTime = \<lparr>instant = 63752943600000000000, zoneOffset = 0\<rparr>\<rparr>"

text \<open>The intake batch of scenario S1 of the specification, with its short ID.\<close>

definition exampleShortIDBatch :: BatchPath where
  "exampleShortIDBatch =
     \<lparr>bpAggregationID = ''agg1'', bpID = ''uuid-AAAA'',
      bpTime = \<lparr>instant = 63752954400000000000, zoneOffset = 0\<rparr>\<rparr>"

text \<open>
  A stand-in for \<^verbatim>\<open>batchpath.ReadyBatches\<close> that knows the batches of the examples by the
  keys of their first files, and nothing else.
\<close>

definition exampleReadyBatches :: "string list \<Rightarrow> string \<Rightarrow> error + BatchPath list" where
  "exampleReadyBatches files infix =
     Inr ((if (''agg1/2021/04/02/10/00/0f0f0f0f-0f0f-0f0f-0f0f-0f0f0f0f0f0f.'' @ infix) \<in> set files
           then [exampleIntakeBatch] else []) @
          (if (''agg1/2021/04/02/10/00/uuid-AAAA.'' @ infix) \<in> set files
           then [exampleShortIDBatch] else []) @
          (if (''agg1/2021/04/02/07/00/uuid-B.'' @ infix) \<in> set files
           then [exampleValidationBatch] else []))"

definition exampleEnqueuer :: "EnqueuerKind \<Rightarrow> bool \<Rightarrow> Enqueuer" where
  "exampleEnqueuer k failing =
     \<lparr>kind = k, dryRun = False, jsonMarshal = (\<lambda>task. Inr ''{}''),
      publish = (\<lambda>message. if failing then Some (Opaque ''unavailable'') else None)\<rparr>"

definition storingBucket :: TaskMarkerWriter where
  "storingBucket = \<lparr>writeTaskMarker = (\<lambda>marker. Stored)\<rparr>"

definition failingBucket :: TaskMarkerWriter where
  "failingBucket = \<lparr>writeTaskMarker = (\<lambda>marker. WriteFailed (Opaque ''denied''))\<rparr>"

definition exampleConfig ::
  "Enqueuer \<Rightarrow> (string \<rightharpoonup> Job) \<Rightarrow> string list \<Rightarrow> scheduleTasksConfig" where
  "exampleConfig enqueuer jobs markerKeys =
     \<lparr>isFirst = True, clock = exampleNow,
      intakeFiles = [''agg1/2021/04/02/10/00/0f0f0f0f-0f0f-0f0f-0f0f-0f0f0f0f0f0f.batch''],
      ownValidationFiles = ''agg1/2021/04/02/07/00/uuid-B.validity_0'' # markerKeys,
      peerValidationFiles = [''agg1/2021/04/02/07/00/uuid-B.validity_1''],
      existingJobs = jobs,
      intakeTaskEnqueuer = enqueuer, aggregationTaskEnqueuer = enqueuer,
      ownValidationBucket = storingBucket,
      maxAge = Hour, aggregationPeriod = 3 * Hour, gracePeriod = Hour\<rparr>"

definition exampleIntake :: IntakeBatch where
  "exampleIntake =
     \<lparr>iAggregationID = ''agg1'', iBatchID = ''0f0f0f0f-0f0f-0f0f-0f0f-0f0f0f0f0f0f'',
      iDate = \<lparr>instant = 63752954400000000000, zoneOffset = 0\<rparr>\<rparr>"

definition exampleAggregation :: Aggregation where
  "exampleAggregation =
     \<lparr>aAggregationID = ''agg1'',
      aAggregationStart = \<lparr>instant = 63752940000000000000, zoneOffset = 0\<rparr>,
      aAggregationEnd = \<lparr>instant = 63752950800000000000, zoneOffset = 0\<rparr>,
      aBatches = [\<lparr>bID = ''uuid-B'',
                   bTime = \<lparr>instant = 63752943600000000000, zoneOffset = 0\<rparr>\<rparr>]\<rparr>"

text \<open>
  The worlds after the run of the example where every publish and every marker write
  succeeds, and after the run where every publish fails (with the SNS enqueuer).
\<close>

definition exampleWorld :: World where
  "exampleWorld =
     \<lparr>enqueued = [IntakeTask exampleIntake, AggregationTask exampleAggregation],
      markerWrites =
        [(''intake-agg1-2021-04-02-10-00-0f0f0f0f-0f0f-0f0f-0f0f-0f0f0f0f0f0f'', Stored),
         (''aggregate-agg1-2021-04-02-06-00-2021-04-02-09-00'', Stored)],
      intakesStarted = 1, aggregationsStarted = 1, logged = []\<rparr>"

definition exampleFailedWorld :: World where
  "exampleFailedWorld =
     \<lparr>enqueued = [IntakeTask exampleIntake, AggregationTask exampleAggregation],
      markerWrites = [],
      intakesStarted = 0, aggregationsStarted = 0,
      logged =
        [(''failed to enqueue intake task: %s'', FailedToPublishTask (Opaque ''unavailable'')),
         (''failed to enqueue aggregation task: %s'',
          FailedToPublishTask (Opaque ''unavailable''))]\<rparr>"





text \<open>A completion that notes the errors it is called with.\<close>

definition notingCompletion :: "error option \<Rightarrow> error option list \<Rightarrow> error option list" where
  "notingCompletion err calls = calls @ [err]"

section \<open>Properties\<close>

lemma sint_neg_Duration:
  fixes d :: Duration
  assumes "sint d \<noteq> - (2 ^ 63)"
  shows "sint (- d) = - sint d"
proof -
  have lo: "- (2 ^ 63) \<le> sint d" using sint_ge [of d] by simp
  have hi: "sint d < 2 ^ 63" using sint_lt [of d] by simp
  have "sint (- d) = signed_take_bit 63 (- sint d)"
    by (simp add: sint_word_ariths)
  also have "\<dots> = - sint d"
    using lo hi assms by (intro signed_take_bit_int_eq_self) auto
  finally show ?thesis .
qed

text \<open>
  C4. For every clock instant, every positive aggregation period and every grace period
  that is not negative, the interval of \<open>aggregationInterval\<close> ends at or before
  \<open>Now - grace\<close>, its end is a multiple of the period counted from the zero instant, and
  its beginning is one period before its end.
\<close>

theorem C4_aggregationInterval_aligned:
  assumes "0 < sint period" and "0 \<le> sint grace"
  shows "instant (iend (aggregationInterval clk period grace)) \<le> instant (Now clk) - sint grace
       \<and> instant (iend (aggregationInterval clk period grace)) mod sint period = 0
       \<and> instant (ibegin (aggregationInterval clk period grace))
           = instant (iend (aggregationInterval clk period grace)) - sint period"
proof -
  have g: "sint (- grace) = - sint grace"
    using assms(2) by (intro sint_neg_Duration) auto
  have p: "sint (- period) = - sint period"
    using assms(1) by (intro sint_neg_Duration) auto
  let ?t = "instant clk - sint grace"
  have e: "instant (iend (aggregationInterval clk period grace)) = ?t - ?t mod sint period"
    using assms(1) by (simp add: aggregationInterval_def Truncate_def Add_def Now_def Let_def g)
  have b: "instant (ibegin (aggregationInterval clk period grace))
             = instant (iend (aggregationInterval clk period grace)) - sint period"
    by (simp add: aggregationInterval_def Add_def Let_def p)
  have m: "0 \<le> ?t mod sint period" using assms(1) by simp
  have z: "(?t - ?t mod sint period) mod sint period = 0"
    by (simp add: minus_mod_eq_mult_div)
  show ?thesis using e b m z by (simp add: Now_def)
qed

theorem C4_aggregationInterval_aligned_witness:
  "instant (iend (aggregationInterval \<lparr>instant = 63752956200000000000, zoneOffset = 0\<rparr> (3 * Hour) Hour))
     = 63752950800000000000
   \<and> (63752950800000000000 :: int) \<le> 63752956200000000000 - sint Hour
   \<and> (63752950800000000000 :: int) mod sint (3 * Hour) = 0
   \<and> instant (ibegin (aggregationInterval \<lparr>instant = 63752956200000000000, zoneOffset = 0\<rparr> (3 * Hour) Hour))
     = 63752950800000000000 - sint (3 * Hour)"
proof -
  have h: "0 < sint (3 * Hour)" "0 \<le> sint Hour" by (simp_all add: Hour_def)
  have e: "instant (iend (aggregationInterval \<lparr>instant = 63752956200000000000, zoneOffset = 0\<rparr> (3 * Hour) Hour))
     = 63752950800000000000" by code_simp
  show ?thesis
    using C4_aggregationInterval_aligned [OF h, of "\<lparr>instant = 63752956200000000000, zoneOffset = 0\<rparr>"] e
    by (simp add: Now_def)
qed

subsection \<open>Formatted times and job names\<close>



lemma digitChar_isDigit: "n < 10 \<Longrightarrow> isDigit (digitChar n)"
proof -
  assume "n < 10"
  then have "n \<in> {0, 1, 2, 3, 4, 5, 6, 7, 8, 9}" by auto
  then show ?thesis
    by (auto simp: digitChar_def isDigit_def inRange_def byte_def)
qed

lemma digits_isDigit: "list_all isDigit (digits n)"
proof (induction n rule: digits.induct)
  case (1 n)
  show ?case
  proof (cases "n < 10")
    case True
    then show ?thesis by (subst digits.simps) (simp add: digitChar_isDigit)
  next
    case False
    then show ?thesis using 1 by (subst digits.simps) (simp add: digitChar_isDigit)
  qed
qed

lemma digits_length_pos: "0 < length (digits n)"
  by (subst digits.simps) simp

lemma digits_length_le: "n < 10 ^ k \<Longrightarrow> 0 < k \<Longrightarrow> length (digits n) \<le> k"
proof (induction n arbitrary: k rule: digits.induct)
  case (1 n)
  show ?case
  proof (cases "n < 10")
    case True
    then show ?thesis using 1(3) by (subst digits.simps) simp
  next
    case False
    obtain j where k: "k = Suc j" using 1(3) by (cases k) auto
    have "j \<noteq> 0" using False 1(2) k by (cases j) auto
    moreover have "n div 10 < 10 ^ j" using 1(2) k by (simp add: less_mult_imp_div_less mult.commute)
    ultimately have "length (digits (n div 10)) \<le> j" using 1(1) [OF False, of j] by simp
    then show ?thesis using False k by (subst digits.simps) simp
  qed
qed

lemma appendInt_length: "0 \<le> x \<Longrightarrow> x < 10 ^ w \<Longrightarrow> 0 < w \<Longrightarrow> length (appendInt x w) = w"
proof -
  assume a: "0 \<le> x" "x < 10 ^ w" "0 < w"
  have "nat \<bar>x\<bar> < 10 ^ w" using a by (simp add: nat_less_iff)
  then have "length (digits (nat \<bar>x\<bar>)) \<le> w" using a(3) by (rule digits_length_le)
  then show ?thesis using a(1) by (simp add: appendInt_def Let_def)
qed

lemma appendInt_chars: "list_all (stampChar sep) (appendInt x w)"
proof -
  have "list_all (stampChar sep) (digits n)" for n
    using digits_isDigit [of n] by (simp add: list_all_iff stampChar_def)
  moreover have "stampChar sep (CHR ''0'')" by (simp add: stampChar_def isDigit_def inRange_def byte_def)
  ultimately show ?thesis
    by (auto simp: appendInt_def Let_def list_all_iff stampChar_def set_replicate_conv_if)
qed

lemma appendInt_digits: "0 \<le> x \<Longrightarrow> list_all isDigit (appendInt x w)"
proof -
  assume "0 \<le> x"
  moreover have "isDigit (CHR ''0'')" by (simp add: isDigit_def inRange_def byte_def)
  ultimately show ?thesis using digits_isDigit [of "nat \<bar>x\<bar>"]
    by (auto simp: appendInt_def Let_def list_all_iff set_replicate_conv_if)
qed

lemma yearDay_range: "0 \<le> snd (yearDay d) \<and> snd (yearDay d) \<le> 365"
proof -
  define d3 where "d3 = (d mod 146097 - 36524 * min 3 (d mod 146097 div 36524)) mod 1461"
  have b: "0 \<le> d3" "d3 < 1461" by (simp_all add: d3_def)
  have "0 \<le> d3 - 365 * min 3 (d3 div 365) \<and> d3 - 365 * min 3 (d3 div 365) \<le> 365"
  proof (cases "d3 < 1460")
    case True
    then have "d3 div 365 \<le> 3" by linarith
    then have "d3 - 365 * min 3 (d3 div 365) = d3 mod 365"
      by (simp add: min_def minus_mult_div_eq_mod)
    moreover have "0 \<le> d3 mod 365" "d3 mod 365 < 365" by simp_all
    ultimately show ?thesis by linarith
  next
    case False
    then have "d3 = 1460" using b by linarith
    then show ?thesis by simp
  qed
  moreover have "snd (yearDay d) = d3 - 365 * min 3 (d3 div 365)"
    unfolding yearDay_def Let_def d3_def by (rule snd_conv)
  ultimately show ?thesis by simp
qed

lemma monthDay_core:
  assumes r: "0 \<le> day" "day \<le> 365"
    and m: "m = nat (day div 31)"
    and p: "p = (if day \<ge> daysBefore ! (m + 1) then (int m + 2, day - daysBefore ! (m + 1) + 1)
                 else (int m + 1, day - daysBefore ! m + 1))"
  shows "1 \<le> fst p \<and> fst p \<le> 13 \<and> 1 \<le> snd p \<and> snd p \<le> 38"
proof -
  consider "day < 31" | "31 \<le> day \<and> day < 62" | "62 \<le> day \<and> day < 93"
    | "93 \<le> day \<and> day < 124" | "124 \<le> day \<and> day < 155" | "155 \<le> day \<and> day < 186"
    | "186 \<le> day \<and> day < 217" | "217 \<le> day \<and> day < 248" | "248 \<le> day \<and> day < 279"
    | "279 \<le> day \<and> day < 310" | "310 \<le> day \<and> day < 341" | "341 \<le> day"
    by linarith
  then show ?thesis
  proof cases
    case 1 then have "m = 0" using r m by simp
    then show ?thesis using 1 r p by (simp add: daysBefore_def)
  next
    case 2 then have "day div 31 = 1" by linarith
    then show ?thesis using 2 p m by (simp add: daysBefore_def)
  next
    case 3 then have "day div 31 = 2" by linarith
    then show ?thesis using 3 p m by (simp add: daysBefore_def)
  next
    case 4 then have "day div 31 = 3" by linarith
    then show ?thesis using 4 p m by (simp add: daysBefore_def)
  next
    case 5 then have "day div 31 = 4" by linarith
    then show ?thesis using 5 p m by (simp add: daysBefore_def)
  next
    case 6 then have "day div 31 = 5" by linarith
    then show ?thesis using 6 p m by (simp add: daysBefore_def)
  next
    case 7 then have "day div 31 = 6" by linarith
    then show ?thesis using 7 p m by (simp add: daysBefore_def)
  next
    case 8 then have "day div 31 = 7" by linarith
    then show ?thesis using 8 p m by (simp add: daysBefore_def)
  next
    case 9 then have "day div 31 = 8" by linarith
    then show ?thesis using 9 p m by (simp add: daysBefore_def)
  next
    case 10 then have "day div 31 = 9" by linarith
    then show ?thesis using 10 p m by (simp add: daysBefore_def)
  next
    case 11 then have "day div 31 = 10" by linarith
    then show ?thesis using 11 p m by (simp add: daysBefore_def)
  next
    case 12 then have "day div 31 = 11" using r by linarith
    then show ?thesis using 12 r p m by (simp add: daysBefore_def)
  qed
qed

lemma monthDay_range:
  assumes "0 \<le> yd" "yd \<le> 365"
  shows "1 \<le> fst (monthDay leap yd) \<and> fst (monthDay leap yd) \<le> 13
       \<and> 1 \<le> snd (monthDay leap yd) \<and> snd (monthDay leap yd) \<le> 38"
proof (cases "leap \<and> yd = 59")
  case True
  then show ?thesis by (simp add: monthDay_def)
next
  case False
  define day where "day = (if leap \<and> yd > 59 then yd - 1 else yd)"
  have r: "0 \<le> day" "day \<le> 365" using assms by (auto simp: day_def)
  have "monthDay leap yd = (if day \<ge> daysBefore ! (nat (day div 31) + 1)
          then (int (nat (day div 31)) + 2, day - daysBefore ! (nat (day div 31) + 1) + 1)
          else (int (nat (day div 31)) + 1, day - daysBefore ! nat (day div 31) + 1))"
    using False unfolding monthDay_def day_def Let_def by auto
  then show ?thesis using monthDay_core [OF r refl] by simp
qed

lemma civil_ranges:
  "1 \<le> cMonth (civil t) \<and> cMonth (civil t) \<le> 13 \<and> 1 \<le> cDay (civil t) \<and> cDay (civil t) \<le> 38
   \<and> 0 \<le> cHour (civil t) \<and> cHour (civil t) \<le> 23 \<and> 0 \<le> cMinute (civil t) \<and> cMinute (civil t) \<le> 59"
proof -
  define secs where "secs = instant t div Second + zoneOffset t"
  obtain y yd where yd: "yearDay (secs div 86400) = (y, yd)" by (cases "yearDay (secs div 86400)")
  obtain m d where md: "monthDay (isLeap y) yd = (m, d)" by (cases "monthDay (isLeap y) yd")
  have c: "civil t = \<lparr>cYear = y, cMonth = m, cDay = d, cHour = secs mod 86400 div 3600,
                      cMinute = secs mod 86400 mod 3600 div 60\<rparr>"
    by (simp add: civil_def Let_def secs_def [symmetric] yd md)
  have "0 \<le> yd \<and> yd \<le> 365" using yearDay_range [of "secs div 86400"] yd by simp
  then have "1 \<le> m \<and> m \<le> 13 \<and> 1 \<le> d \<and> d \<le> 38"
    using monthDay_range [of yd "isLeap y"] md by simp
  moreover have "0 \<le> secs mod 86400 div 3600 \<and> secs mod 86400 div 3600 \<le> 23"
  proof -
    have "0 \<le> secs mod 86400" "secs mod 86400 < 86400" by simp_all
    then show ?thesis by linarith
  qed
  moreover have "0 \<le> secs mod 86400 mod 3600 div 60 \<and> secs mod 86400 mod 3600 div 60 \<le> 59"
  proof -
    have "0 \<le> secs mod 86400 mod 3600" "secs mod 86400 mod 3600 < 3600" by simp_all
    then show ?thesis by linarith
  qed
  ultimately show ?thesis by (simp add: c)
qed


lemma Format_chars: "list_all (stampChar sep) (Format t sep)"
  by (simp add: Format_def Let_def appendInt_chars) (simp add: stampChar_def)

lemma Format_length:
  assumes "0 \<le> cYear (civil t)" "cYear (civil t) \<le> 9999"
  shows "length (Format t sep) = 16"
proof -
  have y: "length (appendInt (cYear (civil t)) 4) = 4"
    using assms by (intro appendInt_length) auto
  have "length (appendInt (cMonth (civil t)) 2) = 2" "length (appendInt (cDay (civil t)) 2) = 2"
       "length (appendInt (cHour (civil t)) 2) = 2" "length (appendInt (cMinute (civil t)) 2) = 2"
    using civil_ranges [of t] by (auto intro!: appendInt_length)
  then show ?thesis using y by (simp add: Format_def Let_def)
qed

lemma ReplaceAll_length: "length new = 1 \<Longrightarrow> length (ReplaceAll s old new) = length s"
  by (induction s) (auto simp: ReplaceAll_def)

lemma ReplaceAll_slash_chars:
  "list_all (stampChar (CHR ''/'')) s \<Longrightarrow> list_all jobNameChar (ReplaceAll s (CHR ''/'') ''-'')"
  by (induction s) (auto simp: ReplaceAll_def stampChar_def jobNameChar_def isDigit_def)

lemma stamp_for_name:
  assumes "0 \<le> cYear (civil t)" "cYear (civil t) \<le> 9999"
  shows "length (ReplaceAll (fmtTime t) (CHR ''/'') ''-'') = 16"
    and "list_all jobNameChar (ReplaceAll (fmtTime t) (CHR ''/'') ''-'')"
  using assms by (simp_all add: fmtTime_def ReplaceAll_length Format_length ReplaceAll_slash_chars Format_chars)

lemma ReplaceAllLiteralString_chars: "list_all nameChar (ReplaceAllLiteralString s)"
  by (induction s rule: ReplaceAllLiteralString.induct) (auto simp: nameChar_def)

lemma toLowerChar_jobNameChar: "nameChar c \<Longrightarrow> jobNameChar (toLowerChar c)"
  by (auto simp: nameChar_def jobNameChar_def toLowerChar_def inRange_def byte_def)

lemma aggregationJobNameFragment_length: "length (aggregationJobNameFragment a n) \<le> n"
  by (simp add: aggregationJobNameFragment_def Let_def ToLower_def)

lemma aggregationJobNameFragment_chars: "list_all jobNameChar (aggregationJobNameFragment a n)"
proof -
  have "list_all nameChar (ReplaceAllLiteralString a)" by (rule ReplaceAllLiteralString_chars)
  then have "list_all nameChar (take n (ReplaceAllLiteralString a))"
    by (auto simp: list_all_iff dest: in_set_takeD)
  then show ?thesis using ReplaceAllLiteralString_chars [of a]
    by (auto simp: aggregationJobNameFragment_def Let_def ToLower_def list_all_iff toLowerChar_jobNameChar)
qed


lemma String_chars: "list_all (stampChar (CHR ''/'')) (String t)"
  by (simp add: String_def stringWithFormat_def Format_chars)

lemma MarshalJSON_UTC: "zoneOffset t = 0 \<Longrightarrow> MarshalJSON t = MarshalJSON (UTC t)"
  by (cases t) (simp add: UTC_def)

text \<open>
  C10. \<open>intakeJobNameForBatchPath\<close> panics exactly when the batch ID has fewer than 16
  characters (bytes) other than dashes: then the slice expression is out of range; with
  16 or more it returns a name.
\<close>

theorem C10_intakeJobName_panics_iff_short_ID:
  "(length (ReplaceAll (bpID path) (CHR ''-'') []) < 16
      \<longrightarrow> intakeJobNameForBatchPath path = Inl SliceBoundsOutOfRange)
   \<and> (16 \<le> length (ReplaceAll (bpID path) (CHR ''-'') [])
      \<longrightarrow> (\<exists>name. intakeJobNameForBatchPath path = Inr name))"
  by (simp add: intakeJobNameForBatchPath_def Let_def)

theorem C10_intakeJobName_panics_iff_short_ID_witness:
  "length (ReplaceAll ''uuid-AAAA'' (CHR ''-'') []) < 16
   \<and> intakeJobNameForBatchPath
       \<lparr>bpAggregationID = ''agg1'', bpID = ''uuid-AAAA'',
        bpTime = \<lparr>instant = 63752954400000000000, zoneOffset = 0\<rparr>\<rparr> = Inl SliceBoundsOutOfRange
   \<and> 16 \<le> length (ReplaceAll ''0f0f0f0f-0f0f-0f0f-0f0f-0f0f0f0f0f0f'' (CHR ''-'') [])
   \<and> (\<exists>name. intakeJobNameForBatchPath
       \<lparr>bpAggregationID = ''agg1'', bpID = ''0f0f0f0f-0f0f-0f0f-0f0f-0f0f0f0f0f0f'',
        bpTime = \<lparr>instant = 63752954400000000000, zoneOffset = 0\<rparr>\<rparr> = Inr name)"
proof -
  have a: "length (ReplaceAll ''uuid-AAAA'' (CHR ''-'') []) < 16"
    by (simp add: ReplaceAll_def)
  have b: "16 \<le> length (ReplaceAll ''0f0f0f0f-0f0f-0f0f-0f0f-0f0f0f0f0f0f'' (CHR ''-'') [])"
    by (simp add: ReplaceAll_def)
  show ?thesis
    using a b
      C10_intakeJobName_panics_iff_short_ID
        [of "\<lparr>bpAggregationID = ''agg1'', bpID = ''uuid-AAAA'',
              bpTime = \<lparr>instant = 63752954400000000000, zoneOffset = 0\<rparr>\<rparr>"]
      C10_intakeJobName_panics_iff_short_ID
        [of "\<lparr>bpAggregationID = ''agg1'', bpID = ''0f0f0f0f-0f0f-0f0f-0f0f-0f0f0f0f0f0f'',
              bpTime = \<lparr>instant = 63752954400000000000, zoneOffset = 0\<rparr>\<rparr>"]
    by simp
qed

text \<open>
  C7. The intake job name takes the first 16 characters of the batch ID as they are:
  for a batch ID that is a UUID written with capital hexadecimal digits the name has
  capital letters and does not match \<^verbatim>\<open>^[a-z0-9-]{1,63}$\<close>, although the aggregation ID
  has gone through \<open>aggregationJobNameFragment\<close>, which replaces and lower-cases.
\<close>

theorem C7_capital_UUID_job_name:
  "intakeJobNameForBatchPath
     \<lparr>bpAggregationID = ''agg1'', bpID = ''0F0F0F0F-0F0F-0F0F-0F0F-0F0F0F0F0F0F'',
      bpTime = \<lparr>instant = 63752954400000000000, zoneOffset = 0\<rparr>\<rparr>
     = Inr ''i-agg1-0F0F0F0F0F0F0F0F-2021-04-02-10-00''
   \<and> \<not> matchesJobNameRegexp ''i-agg1-0F0F0F0F0F0F0F0F-2021-04-02-10-00''"
  by code_simp

text \<open>
  Where the first 16 characters of the batch ID without its dashes are already in
  \<^verbatim>\<open>[a-z0-9-]\<close> and the years of the times have four digits, the two job names are
  legal.
\<close>

lemma job_names_legal:
  assumes "16 \<le> length (ReplaceAll (bpID path) (CHR ''-'') [])"
    and "list_all jobNameChar (take 16 (ReplaceAll (bpID path) (CHR ''-'') []))"
    and "0 \<le> cYear (civil (bpTime path))" and "cYear (civil (bpTime path)) \<le> 9999"
    and "0 \<le> cYear (civil (ibegin intv))" and "cYear (civil (ibegin intv)) \<le> 9999"
  shows "(\<exists>name. intakeJobNameForBatchPath path = Inr name \<and> matchesJobNameRegexp name)
       \<and> matchesJobNameRegexp (aggregationTaskName aggregationID intv)"
proof -
  let ?frag = "aggregationJobNameFragment (bpAggregationID path) 27"
  let ?uuid = "take 16 (ReplaceAll (bpID path) (CHR ''-'') [])"
  let ?stamp = "ReplaceAll (fmtTime (bpTime path)) (CHR ''/'') ''-''"
  let ?name = "''i-'' @ ?frag @ ''-'' @ ?uuid @ ''-'' @ ?stamp"
  have d: "jobNameChar (CHR ''-'')" "jobNameChar (CHR ''i'')" "jobNameChar (CHR ''a'')"
    by (simp_all add: jobNameChar_def inRange_def byte_def)
  have n: "intakeJobNameForBatchPath path = Inr ?name"
    using assms(1) by (simp add: intakeJobNameForBatchPath_def Let_def)
  have "length ?name \<le> 63"
    using aggregationJobNameFragment_length [of "bpAggregationID path" 27]
      stamp_for_name(1) [OF assms(3,4)] by simp
  moreover have "list_all jobNameChar ?name"
    using aggregationJobNameFragment_chars [of "bpAggregationID path" 27]
      stamp_for_name(2) [OF assms(3,4)] assms(2) d by simp
  ultimately have i: "matchesJobNameRegexp ?name" by (simp add: matchesJobNameRegexp_def)
  have "length (aggregationTaskName aggregationID intv) \<le> 63"
    using aggregationJobNameFragment_length [of aggregationID 30]
      stamp_for_name(1) [OF assms(5,6)] by (simp add: aggregationTaskName_def)
  moreover have "list_all jobNameChar (aggregationTaskName aggregationID intv)"
    using aggregationJobNameFragment_chars [of aggregationID 30]
      stamp_for_name(2) [OF assms(5,6)] d by (simp add: aggregationTaskName_def)
  ultimately have a: "matchesJobNameRegexp (aggregationTaskName aggregationID intv)"
    by (simp add: matchesJobNameRegexp_def aggregationTaskName_def)
  show ?thesis using n i a by simp
qed

text \<open>
  C8. \<open>MarshalJSON\<close> formats a timestamp in the Location the timestamp has: the instant
  2021-04-02 10:00 UTC, held in a Location one hour east of UTC, is serialised as
  \<^verbatim>\<open>"2021/04/02/11/00"\<close>, and as \<^verbatim>\<open>"2021/04/02/10/00"\<close> only after a conversion to UTC
  that \<open>MarshalJSON\<close> does not make.
\<close>

theorem C8_MarshalJSON_uses_location:
  "MarshalJSON \<lparr>instant = 63752954400000000000, zoneOffset = 3600\<rparr>
     = Inr (jsonString ''2021/04/02/11/00'')
   \<and> MarshalJSON (UTC \<lparr>instant = 63752954400000000000, zoneOffset = 3600\<rparr>)
     = Inr (jsonString ''2021/04/02/10/00'')"
  by code_simp

subsection \<open>What marker writes, completions and enqueuers do to the world\<close>

lemma WriteTaskMarker_enqueued:
  "WriteTaskMarker b m w = (r, w') \<Longrightarrow> enqueued w' = enqueued w"
  by (auto simp: WriteTaskMarker_def Let_def)

lemma WriteTaskMarker_markerWrites:
  "WriteTaskMarker b m w = (r, w') \<Longrightarrow> markerWrites w' = markerWrites w @ [(m, writeTaskMarker b m)]"
  by (auto simp: WriteTaskMarker_def Let_def)

lemma WriteTaskMarker_result:
  "WriteTaskMarker b m w = (r, w') \<Longrightarrow> (r = None) = (\<forall>e. writeTaskMarker b m \<noteq> WriteFailed e)"
  by (auto simp: WriteTaskMarker_def Let_def split: writeOutcome.splits)

lemma intakeCompletion_enqueued:
  "enqueued (intakeCompletion b i err w) = enqueued w"
  by (auto simp: intakeCompletion_def WriteTaskMarker_def Printf_def Let_def
           split: option.splits writeOutcome.splits)

lemma intakeCompletion_markerWrites:
  "set (markerWrites w) \<subseteq> set (markerWrites (intakeCompletion b i err w))"
  by (auto simp: intakeCompletion_def WriteTaskMarker_def Printf_def Let_def
           split: option.splits writeOutcome.splits)

lemma aggregationCompletion_enqueued:
  "enqueued (aggregationCompletion b a err w) = enqueued w"
  by (auto simp: aggregationCompletion_def WriteTaskMarker_def Printf_def Let_def
           split: option.splits writeOutcome.splits)

lemma aggregationCompletion_markerWrites:
  "set (markerWrites w) \<subseteq> set (markerWrites (aggregationCompletion b a err w))"
  by (auto simp: aggregationCompletion_def WriteTaskMarker_def Printf_def Let_def
           split: option.splits writeOutcome.splits)

text \<open>
  Both enqueuers apply the completion once or twice, and nothing else, to the state.
\<close>

lemma Enqueuers_apply_completion:
  assumes "\<And>err s. P s \<Longrightarrow> P (completion err s)" and "P s"
  shows "P (GCPPubSubEnqueuer_Enqueue e task completion s)"
    and "P (AWSSNSEnqueuer_Enqueue e task completion s)"
  using assms
  by (auto simp: GCPPubSubEnqueuer_Enqueue_def AWSSNSEnqueuer_Enqueue_def Let_def
           split: sum.splits option.splits)

lemma Enqueue_invariant:
  assumes "\<And>err s. P s \<Longrightarrow> P (completion err s)" and "P (w\<lparr>enqueued := enqueued w @ [task]\<rparr>)"
  shows "P (Enqueue e task completion w)"
  using Enqueuers_apply_completion [of P completion, OF assms]
  by (simp add: Enqueue_def Let_def split: EnqueuerKind.splits)

lemma Enqueue_intake_enqueued:
  "enqueued (Enqueue e task (intakeCompletion b i) w) = enqueued w @ [task]"
  by (rule Enqueue_invariant [where P = "\<lambda>s. enqueued s = enqueued w @ [task]"])
     (simp_all add: intakeCompletion_enqueued)

lemma Enqueue_aggregation_enqueued:
  "enqueued (Enqueue e task (aggregationCompletion b a) w) = enqueued w @ [task]"
  by (rule Enqueue_invariant [where P = "\<lambda>s. enqueued s = enqueued w @ [task]"])
     (simp_all add: aggregationCompletion_enqueued)

lemma Enqueue_intake_markerWrites:
  "set (markerWrites w) \<subseteq> set (markerWrites (Enqueue e task (intakeCompletion b i) w))"
  by (rule Enqueue_invariant [where P = "\<lambda>s. set (markerWrites w) \<subseteq> set (markerWrites s)"])
     (meson intakeCompletion_markerWrites subset_trans, simp)

lemma Enqueue_aggregation_markerWrites:
  "set (markerWrites w) \<subseteq> set (markerWrites (Enqueue e task (aggregationCompletion b a) w))"
  by (rule Enqueue_invariant [where P = "\<lambda>s. set (markerWrites w) \<subseteq> set (markerWrites s)"])
     (meson aggregationCompletion_markerWrites subset_trans, simp)


subsection \<open>The intake loop\<close>

lemma taskJobName_intakeTaskOf [simp]:
  "taskJobName (IntakeTask (intakeTaskOf batch)) = intakeJobNameForBatchPath batch"
  by (cases batch) (simp add: intakeTaskOf_def)

lemma taskJobName_aggregationTaskOf [simp]:
  "taskJobName (AggregationTask (aggregationTaskOf intv bs))
     = Inr (aggregationTaskName (bpAggregationID (hd bs)) intv)"
  by (simp add: aggregationTaskOf_def aggregationTaskName_def)

declare taskJobName.simps [simp del]

lemma enqueueIntakeTasks_Cons:
  "enqueueIntakeTasks clk (batch # rest) lim tm jobs b e w =
     (if sint (Sub (Now clk) (bpTime batch)) > sint lim
      then enqueueIntakeTasks clk rest lim tm jobs b e w
      else if Marker (IntakeTask (intakeTaskOf batch)) \<in> tm
      then enqueueIntakeTasks clk rest lim tm jobs b e w
      else
        (case intakeJobNameForBatchPath batch of
           Inl panic \<Rightarrow> (Some panic, w)
         | Inr taskName \<Rightarrow>
             if jobs taskName \<noteq> None
             then
               (case WriteTaskMarker b (Marker (IntakeTask (intakeTaskOf batch))) w of
                  (Some err, w') \<Rightarrow> (Some err, w')
                | (None, w') \<Rightarrow> enqueueIntakeTasks clk rest lim tm jobs b e w')
             else
               enqueueIntakeTasks clk rest lim tm jobs b e
                 (Enqueue e (IntakeTask (intakeTaskOf batch))
                    (intakeCompletion b (intakeTaskOf batch)) w)))"
  by (simp add: intakeTaskOf_def Let_def split: sum.splits)

declare enqueueIntakeTasks.simps(2) [simp del]
declare Marker.simps [simp del]

lemma intakeCandidates_Cons:
  "intakeCandidates clk lim (batch # rest) =
     (if sint (Sub (Now clk) (bpTime batch)) > sint lim then intakeCandidates clk lim rest
      else IntakeTask (intakeTaskOf batch) # intakeCandidates clk lim rest)"
  by (simp add: intakeCandidates_def)

lemma intakeCandidates_Nil [simp]: "intakeCandidates clk lim [] = []"
  by (simp add: intakeCandidates_def)

text \<open>The ways one turn of the intake loop can go.\<close>

lemma enqueueIntakeTasks_turn:
  assumes "enqueueIntakeTasks clk (batch # rest) lim tm jobs b e w = (st, w')"
  obtains
    (old) "intakeCandidates clk lim (batch # rest) = intakeCandidates clk lim rest"
      and "enqueueIntakeTasks clk rest lim tm jobs b e w = (st, w')"
  | (marked) "intakeCandidates clk lim (batch # rest)
                = IntakeTask (intakeTaskOf batch) # intakeCandidates clk lim rest"
      and "\<not> isNew tm jobs (IntakeTask (intakeTaskOf batch))"
      and "\<not> toHeal tm jobs (IntakeTask (intakeTaskOf batch))"
      and "enqueueIntakeTasks clk rest lim tm jobs b e w = (st, w')"
  | (panic) "\<not> isNew tm jobs (IntakeTask (intakeTaskOf batch))"
      and "\<not> toHeal tm jobs (IntakeTask (intakeTaskOf batch))"
      and "st \<noteq> None" and "w' = w"
  | (unhealed) err where "toHeal tm jobs (IntakeTask (intakeTaskOf batch))"
      and "WriteTaskMarker b (Marker (IntakeTask (intakeTaskOf batch))) w = (Some err, w')"
      and "st = Some err"
  | (healed) w1 where "intakeCandidates clk lim (batch # rest)
                = IntakeTask (intakeTaskOf batch) # intakeCandidates clk lim rest"
      and "\<not> isNew tm jobs (IntakeTask (intakeTaskOf batch))"
      and "toHeal tm jobs (IntakeTask (intakeTaskOf batch))"
      and "WriteTaskMarker b (Marker (IntakeTask (intakeTaskOf batch))) w = (None, w1)"
      and "enqueueIntakeTasks clk rest lim tm jobs b e w1 = (st, w')"
  | (new) "intakeCandidates clk lim (batch # rest)
                = IntakeTask (intakeTaskOf batch) # intakeCandidates clk lim rest"
      and "isNew tm jobs (IntakeTask (intakeTaskOf batch))"
      and "\<not> toHeal tm jobs (IntakeTask (intakeTaskOf batch))"
      and "enqueueIntakeTasks clk rest lim tm jobs b e
             (Enqueue e (IntakeTask (intakeTaskOf batch))
                (intakeCompletion b (intakeTaskOf batch)) w) = (st, w')"
proof (cases "sint (Sub (Now clk) (bpTime batch)) > sint lim")
  case True
  then show ?thesis using assms old
    by (simp add: enqueueIntakeTasks_Cons intakeCandidates_Cons)
next
  case young: False
  let ?t = "IntakeTask (intakeTaskOf batch)"
  have c: "intakeCandidates clk lim (batch # rest) = ?t # intakeCandidates clk lim rest"
    using young by (simp add: intakeCandidates_Cons)
  show ?thesis
  proof (cases "Marker ?t \<in> tm")
    case True
    then show ?thesis using assms young c marked
      by (simp add: enqueueIntakeTasks_Cons isNew_def toHeal_def)
  next
    case unmarked: False
    show ?thesis
    proof (cases "intakeJobNameForBatchPath batch")
      case (Inl p)
      then show ?thesis using assms young unmarked panic
        by (auto simp: enqueueIntakeTasks_Cons isNew_def toHeal_def)
    next
      case (Inr n)
      show ?thesis
      proof (cases "jobs n")
        case None
        then show ?thesis using assms young unmarked Inr c new
          by (simp add: enqueueIntakeTasks_Cons isNew_def toHeal_def)
      next
        case (Some j)
        then have h: "toHeal tm jobs ?t" "\<not> isNew tm jobs ?t"
          using unmarked Inr by (simp_all add: isNew_def toHeal_def)
        obtain r w1 where w1: "WriteTaskMarker b (Marker ?t) w = (r, w1)"
          by (cases "WriteTaskMarker b (Marker ?t) w")
        show ?thesis
        proof (cases r)
          case None
          then show ?thesis using assms young unmarked Inr Some w1 h c healed
            by (simp add: enqueueIntakeTasks_Cons)
        next
          case (Some err)
          then show ?thesis using assms young unmarked Inr \<open>jobs n = Some j\<close> w1 h unhealed
            by (auto simp: enqueueIntakeTasks_Cons)
        qed
      qed
    qed
  qed
qed

lemma enqueueIntakeTasks_markerWrites:
  "enqueueIntakeTasks clk bs lim tm jobs b e w = (st, w')
   \<Longrightarrow> set (markerWrites w) \<subseteq> set (markerWrites w')"
proof (induction bs arbitrary: w)
  case Nil
  then show ?case by simp
next
  case (Cons batch rest)
  from Cons.prems show ?case
  proof (cases rule: enqueueIntakeTasks_turn)
    case old
    then show ?thesis using Cons.IH by blast
  next
    case marked
    then show ?thesis using Cons.IH by blast
  next
    case panic
    then show ?thesis by simp
  next
    case (unhealed err)
    then show ?thesis using WriteTaskMarker_markerWrites by fastforce
  next
    case (healed w1)
    then show ?thesis
      using Cons.IH [of w1] WriteTaskMarker_markerWrites [of b _ w None w1] by auto
  next
    case new
    then show ?thesis
      using Cons.IH Enqueue_intake_markerWrites by blast
  qed
qed

lemma enqueueIntakeTasks_subset:
  "enqueueIntakeTasks clk bs lim tm jobs b e w = (st, w')
   \<Longrightarrow> set (enqueued w') \<subseteq> set (enqueued w) \<union> {t \<in> set (intakeCandidates clk lim bs). isNew tm jobs t}"
proof (induction bs arbitrary: w)
  case Nil
  then show ?case by simp
next
  case (Cons batch rest)
  from Cons.prems show ?case
  proof (cases rule: enqueueIntakeTasks_turn)
    case old
    then show ?thesis using Cons.IH [of w] by simp
  next
    case marked
    then show ?thesis using Cons.IH [of w] by auto
  next
    case panic
    then show ?thesis by simp
  next
    case (unhealed err)
    then show ?thesis using WriteTaskMarker_enqueued by fastforce
  next
    case (healed w1)
    then show ?thesis
      using Cons.IH [of w1] WriteTaskMarker_enqueued [of b _ w None w1] by auto
  next
    case new
    then show ?thesis
      using Cons.IH [OF new(4)] by (auto simp: Enqueue_intake_enqueued)
  qed
qed

lemma enqueueIntakeTasks_returned:
  "enqueueIntakeTasks clk bs lim tm jobs b e w = (None, w')
   \<Longrightarrow> enqueued w' = enqueued w @ filter (isNew tm jobs) (intakeCandidates clk lim bs)"
proof (induction bs arbitrary: w)
  case Nil
  then show ?case by simp
next
  case (Cons batch rest)
  from Cons.prems show ?case
  proof (cases rule: enqueueIntakeTasks_turn)
    case old
    then show ?thesis using Cons.IH [of w] by simp
  next
    case marked
    then show ?thesis using Cons.IH [of w] by simp
  next
    case panic
    then show ?thesis by simp
  next
    case (unhealed err)
    then show ?thesis by simp
  next
    case (healed w1)
    then show ?thesis
      using Cons.IH [of w1] WriteTaskMarker_enqueued [of b _ w None w1] by simp
  next
    case new
    then show ?thesis
      using Cons.IH [OF new(4)] by (simp add: Enqueue_intake_enqueued)
  qed
qed

lemma enqueueIntakeTasks_heals:
  "enqueueIntakeTasks clk bs lim tm jobs b e w = (None, w')
   \<Longrightarrow> t \<in> set (intakeCandidates clk lim bs) \<Longrightarrow> toHeal tm jobs t
   \<Longrightarrow> (Marker t, writeTaskMarker b (Marker t)) \<in> set (markerWrites w')
       \<and> (\<forall>err. writeTaskMarker b (Marker t) \<noteq> WriteFailed err)"
proof (induction bs arbitrary: w)
  case Nil
  then show ?case by simp
next
  case (Cons batch rest)
  from Cons.prems(1) show ?case
  proof (cases rule: enqueueIntakeTasks_turn)
    case old
    then show ?thesis using Cons.IH [of w] Cons.prems by simp
  next
    case marked
    then show ?thesis using Cons.IH [of w] Cons.prems by auto
  next
    case panic
    then show ?thesis by simp
  next
    case (unhealed err)
    then show ?thesis by simp
  next
    case (healed w1)
    let ?t = "IntakeTask (intakeTaskOf batch)"
    show ?thesis
    proof (cases "t = ?t")
      case True
      have "(Marker ?t, writeTaskMarker b (Marker ?t)) \<in> set (markerWrites w1)"
        using WriteTaskMarker_markerWrites [OF healed(4)] by simp
      then have "(Marker ?t, writeTaskMarker b (Marker ?t)) \<in> set (markerWrites w')"
        using enqueueIntakeTasks_markerWrites [OF healed(5)] by blast
      moreover have "\<forall>err. writeTaskMarker b (Marker ?t) \<noteq> WriteFailed err"
        using WriteTaskMarker_result [OF healed(4)] by simp
      ultimately show ?thesis using True by simp
    next
      case False
      then show ?thesis using Cons.IH [OF healed(5)] Cons.prems(2,3) healed(1) by simp
    qed
  next
    case new
    then show ?thesis using Cons.IH [OF new(4)] Cons.prems(2,3) by auto
  qed
qed


subsection \<open>The aggregation loop\<close>

lemma aggregationLoop_Cons:
  "aggregationLoop ((key, bs) # rest) intv tm jobs b e w =
     (if bs = [] then (Some IndexOutOfRange, w)
      else
        (case find (\<lambda>batchPath. bpAggregationID (hd bs) \<noteq> bpAggregationID batchPath) bs of
           Some batchPath \<Rightarrow>
             (Some (AggregationIDMismatch (bpAggregationID batchPath) (bpAggregationID (hd bs))), w)
         | None \<Rightarrow>
             if Marker (AggregationTask (aggregationTaskOf intv bs)) \<in> tm
             then aggregationLoop rest intv tm jobs b e w
             else if jobs (aggregationTaskName (bpAggregationID (hd bs)) intv) \<noteq> None
             then
               (case WriteTaskMarker b (Marker (AggregationTask (aggregationTaskOf intv bs))) w of
                  (Some err, w') \<Rightarrow> (Some err, w')
                | (None, w') \<Rightarrow> aggregationLoop rest intv tm jobs b e w')
             else
               aggregationLoop rest intv tm jobs b e
                 (Enqueue e (AggregationTask (aggregationTaskOf intv bs))
                    (aggregationCompletion b (aggregationTaskOf intv bs)) w)))"
proof -
  have f: "batchOf = (\<lambda>batchPath. \<lparr>bID = bpID batchPath, bTime = bpTime batchPath\<rparr>)"
    by (rule ext) (simp add: batchOf_def)
  show ?thesis
    by (cases bs) (simp_all add: aggregationTaskOf_def f Let_def split: option.splits)
qed

declare aggregationLoop.simps(2) [simp del]

lemma aggregationCandidates_Cons [simp]:
  "aggregationCandidates intv ((key, bs) # rest)
     = AggregationTask (aggregationTaskOf intv bs) # aggregationCandidates intv rest"
  by (simp add: aggregationCandidates_def)

lemma aggregationCandidates_Nil [simp]: "aggregationCandidates intv [] = []"
  by (simp add: aggregationCandidates_def)

text \<open>The ways one turn of the aggregation loop can go.\<close>

lemma aggregationLoop_turn_pair:
  assumes "aggregationLoop ((key, bs) # rest) intv tm jobs b e w = (st, w')"
  obtains
    (corrupt) "st \<noteq> None" and "w' = w"
  | (marked) "\<not> isNew tm jobs (AggregationTask (aggregationTaskOf intv bs))"
      and "\<not> toHeal tm jobs (AggregationTask (aggregationTaskOf intv bs))"
      and "aggregationLoop rest intv tm jobs b e w = (st, w')"
  | (unhealed) err where "toHeal tm jobs (AggregationTask (aggregationTaskOf intv bs))"
      and "WriteTaskMarker b (Marker (AggregationTask (aggregationTaskOf intv bs))) w = (Some err, w')"
      and "st = Some err"
  | (healed) w1 where "\<not> isNew tm jobs (AggregationTask (aggregationTaskOf intv bs))"
      and "toHeal tm jobs (AggregationTask (aggregationTaskOf intv bs))"
      and "WriteTaskMarker b (Marker (AggregationTask (aggregationTaskOf intv bs))) w = (None, w1)"
      and "aggregationLoop rest intv tm jobs b e w1 = (st, w')"
  | (new) "isNew tm jobs (AggregationTask (aggregationTaskOf intv bs))"
      and "\<not> toHeal tm jobs (AggregationTask (aggregationTaskOf intv bs))"
      and "aggregationLoop rest intv tm jobs b e
             (Enqueue e (AggregationTask (aggregationTaskOf intv bs))
                (aggregationCompletion b (aggregationTaskOf intv bs)) w) = (st, w')"
proof (cases "bs = [] \<or> find (\<lambda>batchPath. bpAggregationID (hd bs) \<noteq> bpAggregationID batchPath) bs \<noteq> None")
  case True
  then show ?thesis using assms corrupt
    by (auto simp: aggregationLoop_Cons split: if_splits)
next
  case sound: False
  let ?t = "AggregationTask (aggregationTaskOf intv bs)"
  show ?thesis
  proof (cases "Marker ?t \<in> tm")
    case True
    then show ?thesis using assms sound marked
      by (simp add: aggregationLoop_Cons isNew_def toHeal_def)
  next
    case unmarked: False
    show ?thesis
    proof (cases "jobs (aggregationTaskName (bpAggregationID (hd bs)) intv)")
      case None
      then show ?thesis using assms sound unmarked new
        by (simp add: aggregationLoop_Cons isNew_def toHeal_def)
    next
      case (Some j)
      then have h: "toHeal tm jobs ?t" "\<not> isNew tm jobs ?t"
        using unmarked by (simp_all add: isNew_def toHeal_def)
      obtain r w1 where w1: "WriteTaskMarker b (Marker ?t) w = (r, w1)"
        by (cases "WriteTaskMarker b (Marker ?t) w")
      show ?thesis
      proof (cases r)
        case None
        then show ?thesis using assms sound unmarked Some w1 h healed
          by (simp add: aggregationLoop_Cons)
      next
        case (Some err)
        then show ?thesis
          using assms sound unmarked \<open>jobs (aggregationTaskName (bpAggregationID (hd bs)) intv) = Some j\<close>
            w1 h unhealed
          by (auto simp: aggregationLoop_Cons)
      qed
    qed
  qed
qed

lemma aggregationLoop_turn:
  assumes "aggregationLoop (g # rest) intv tm jobs b e w = (st, w')"
  obtains
    (corrupt) "st \<noteq> None" and "w' = w"
  | (marked) "\<not> isNew tm jobs (AggregationTask (aggregationTaskOf intv (snd g)))"
      and "\<not> toHeal tm jobs (AggregationTask (aggregationTaskOf intv (snd g)))"
      and "aggregationLoop rest intv tm jobs b e w = (st, w')"
  | (unhealed) err where "toHeal tm jobs (AggregationTask (aggregationTaskOf intv (snd g)))"
      and "WriteTaskMarker b (Marker (AggregationTask (aggregationTaskOf intv (snd g)))) w
             = (Some err, w')"
      and "st = Some err"
  | (healed) w1 where "\<not> isNew tm jobs (AggregationTask (aggregationTaskOf intv (snd g)))"
      and "toHeal tm jobs (AggregationTask (aggregationTaskOf intv (snd g)))"
      and "WriteTaskMarker b (Marker (AggregationTask (aggregationTaskOf intv (snd g)))) w
             = (None, w1)"
      and "aggregationLoop rest intv tm jobs b e w1 = (st, w')"
  | (new) "isNew tm jobs (AggregationTask (aggregationTaskOf intv (snd g)))"
      and "\<not> toHeal tm jobs (AggregationTask (aggregationTaskOf intv (snd g)))"
      and "aggregationLoop rest intv tm jobs b e
             (Enqueue e (AggregationTask (aggregationTaskOf intv (snd g)))
                (aggregationCompletion b (aggregationTaskOf intv (snd g))) w) = (st, w')"
proof -
  obtain key bs where g: "g = (key, bs)" by (cases g)
  from assms [unfolded g] show ?thesis
    by (cases rule: aggregationLoop_turn_pair)
       (use g corrupt marked unhealed healed new in \<open>simp_all\<close>)
qed

lemma aggregationCandidates_step:
  "aggregationCandidates intv (g # rest)
     = AggregationTask (aggregationTaskOf intv (snd g)) # aggregationCandidates intv rest"
  by (cases g) simp

lemma aggregationLoop_markerWrites:
  "aggregationLoop gs intv tm jobs b e w = (st, w')
   \<Longrightarrow> set (markerWrites w) \<subseteq> set (markerWrites w')"
proof (induction gs arbitrary: w)
  case Nil
  then show ?case by simp
next
  case (Cons g rest)
  from Cons.prems show ?case
  proof (cases rule: aggregationLoop_turn)
    case corrupt
    then show ?thesis by simp
  next
    case marked
    then show ?thesis using Cons.IH by blast
  next
    case (unhealed err)
    then show ?thesis using WriteTaskMarker_markerWrites by fastforce
  next
    case (healed w1)
    then show ?thesis
      using Cons.IH [of w1] WriteTaskMarker_markerWrites [of b _ w None w1] by auto
  next
    case new
    then show ?thesis
      using Cons.IH Enqueue_aggregation_markerWrites by blast
  qed
qed

lemma aggregationLoop_subset:
  "aggregationLoop gs intv tm jobs b e w = (st, w')
   \<Longrightarrow> set (enqueued w') \<subseteq> set (enqueued w) \<union> {t \<in> set (aggregationCandidates intv gs). isNew tm jobs t}"
proof (induction gs arbitrary: w)
  case Nil
  then show ?case by simp
next
  case (Cons g rest)
  from Cons.prems show ?case
  proof (cases rule: aggregationLoop_turn)
    case corrupt
    then show ?thesis by simp
  next
    case marked
    then show ?thesis using Cons.IH [of w] by (auto simp: aggregationCandidates_step)
  next
    case (unhealed err)
    then show ?thesis using WriteTaskMarker_enqueued by fastforce
  next
    case (healed w1)
    then show ?thesis
      using Cons.IH [of w1] WriteTaskMarker_enqueued [of b _ w None w1]
      by (auto simp: aggregationCandidates_step)
  next
    case new
    then show ?thesis
      using Cons.IH [OF new(3)]
      by (auto simp: Enqueue_aggregation_enqueued aggregationCandidates_step)
  qed
qed

lemma aggregationLoop_returned:
  "aggregationLoop gs intv tm jobs b e w = (None, w')
   \<Longrightarrow> enqueued w' = enqueued w @ filter (isNew tm jobs) (aggregationCandidates intv gs)"
proof (induction gs arbitrary: w)
  case Nil
  then show ?case by simp
next
  case (Cons g rest)
  from Cons.prems show ?case
  proof (cases rule: aggregationLoop_turn)
    case corrupt
    then show ?thesis by simp
  next
    case marked
    then show ?thesis using Cons.IH [of w] by (simp add: aggregationCandidates_step)
  next
    case (unhealed err)
    then show ?thesis by simp
  next
    case (healed w1)
    then show ?thesis
      using Cons.IH [of w1] WriteTaskMarker_enqueued [of b _ w None w1]
      by (simp add: aggregationCandidates_step)
  next
    case new
    then show ?thesis
      using Cons.IH [OF new(3)]
      by (simp add: Enqueue_aggregation_enqueued aggregationCandidates_step)
  qed
qed

lemma aggregationLoop_heals:
  "aggregationLoop gs intv tm jobs b e w = (None, w')
   \<Longrightarrow> t \<in> set (aggregationCandidates intv gs) \<Longrightarrow> toHeal tm jobs t
   \<Longrightarrow> (Marker t, writeTaskMarker b (Marker t)) \<in> set (markerWrites w')
       \<and> (\<forall>err. writeTaskMarker b (Marker t) \<noteq> WriteFailed err)"
proof (induction gs arbitrary: w)
  case Nil
  then show ?case by simp
next
  case (Cons g rest)
  from Cons.prems(1) show ?case
  proof (cases rule: aggregationLoop_turn)
    case corrupt
    then show ?thesis by simp
  next
    case marked
    then show ?thesis using Cons.IH [of w] Cons.prems by (auto simp: aggregationCandidates_step)
  next
    case (unhealed err)
    then show ?thesis by simp
  next
    case (healed w1)
    let ?t = "AggregationTask (aggregationTaskOf intv (snd g))"
    show ?thesis
    proof (cases "t = ?t")
      case True
      have "(Marker ?t, writeTaskMarker b (Marker ?t)) \<in> set (markerWrites w1)"
        using WriteTaskMarker_markerWrites [OF healed(3)] by simp
      then have "(Marker ?t, writeTaskMarker b (Marker ?t)) \<in> set (markerWrites w')"
        using aggregationLoop_markerWrites [OF healed(4)] by blast
      moreover have "\<forall>err. writeTaskMarker b (Marker ?t) \<noteq> WriteFailed err"
        using WriteTaskMarker_result [OF healed(3)] by simp
      ultimately show ?thesis using True by simp
    next
      case False
      then show ?thesis using Cons.IH [OF healed(4)] Cons.prems(2,3)
        by (simp add: aggregationCandidates_step)
    qed
  next
    case new
    then show ?thesis using Cons.IH [OF new(3)] Cons.prems(2,3)
      by (auto simp: aggregationCandidates_step)
  qed
qed

lemma set_take_Un_drop: "set (take i xs) \<union> set (drop i xs) = set xs"
  by (metis append_take_drop_id set_append)

lemma set_rangeOrder [simp]: "set (rangeOrder ns xs) = set xs"
  by (induction ns xs rule: rangeOrder.induct) (simp_all add: Let_def set_take_Un_drop)

lemma length_rangeOrder [simp]: "length (rangeOrder ns xs) = length xs"
  by (induction ns xs rule: rangeOrder.induct) (simp_all add: Let_def)

lemma enqueueAggregationTasks_loop:
  "enqueueAggregationTasks order m intv tm jobs b e w
     = aggregationLoop (rangeOrder order m) intv tm jobs b e w"
  by (cases m) (simp_all add: enqueueAggregationTasks_def)

subsection \<open>Grouping by aggregation ID\<close>

lemma groupByAggregationID_snoc:
  "groupByAggregationID (xs @ [x]) =
     AList.update (bpAggregationID x)
       ((case map_of (groupByAggregationID xs) (bpAggregationID x) of None \<Rightarrow> [] | Some l \<Rightarrow> l) @ [x])
       (groupByAggregationID xs)"
  by (simp add: groupByAggregationID_def)

lemma groupByAggregationID_Nil [simp]: "groupByAggregationID [] = []"
  by (simp add: groupByAggregationID_def)

lemma filter_absent:
  "bpAggregationID x \<notin> bpAggregationID ` set xs
   \<Longrightarrow> filter (\<lambda>b. bpAggregationID b = bpAggregationID x) xs = []"
  by (induction xs) auto

lemma map_of_groupByAggregationID:
  "map_of (groupByAggregationID xs) k =
     (if k \<in> bpAggregationID ` set xs then Some (filter (\<lambda>b. bpAggregationID b = k) xs) else None)"
proof (induction xs arbitrary: k rule: rev_induct)
  case Nil
  then show ?case by simp
next
  case (snoc x xs)
  have "(case map_of (groupByAggregationID xs) (bpAggregationID x) of None \<Rightarrow> [] | Some l \<Rightarrow> l)
          = filter (\<lambda>b. bpAggregationID b = bpAggregationID x) xs"
  proof (cases "bpAggregationID x \<in> bpAggregationID ` set xs")
    case True
    then show ?thesis by (simp add: snoc.IH)
  next
    case False
    then have "filter (\<lambda>b. bpAggregationID b = bpAggregationID x) xs = []"
      by (rule filter_absent)
    then show ?thesis using False by (simp add: snoc.IH)
  qed
  then show ?case
    by (auto simp: groupByAggregationID_snoc update_conv' snoc.IH)
qed

lemma distinct_groupByAggregationID: "distinct (map fst (groupByAggregationID xs))"
  by (induction xs rule: rev_induct) (simp_all add: groupByAggregationID_snoc distinct_update)

lemma in_groupByAggregationID:
  "(k, bs) \<in> set (groupByAggregationID xs)
   \<longleftrightarrow> k \<in> bpAggregationID ` set xs \<and> bs = filter (\<lambda>b. bpAggregationID b = k) xs"
  using map_of_eq_Some_iff [OF distinct_groupByAggregationID, of xs k bs]
  by (auto simp: map_of_groupByAggregationID split: if_splits)

lemma group_hd:
  assumes "(k, bs) \<in> set (groupByAggregationID xs)"
  shows "bs \<noteq> []" and "bpAggregationID (hd bs) = k" and "set bs = {b \<in> set xs. bpAggregationID b = k}"
proof -
  have k: "k \<in> bpAggregationID ` set xs" and bs: "bs = filter (\<lambda>b. bpAggregationID b = k) xs"
    using assms by (simp_all add: in_groupByAggregationID)
  show ne: "bs \<noteq> []" using k bs by (auto simp: filter_empty_conv)
  have "hd bs \<in> set bs" using ne by simp
  then show "bpAggregationID (hd bs) = k" using bs by simp
  show "set bs = {b \<in> set xs. bpAggregationID b = k}" using bs by auto
qed

lemma Marker_aggregationTaskOf:
  "Marker (AggregationTask (aggregationTaskOf intv bs)) = aggregationMarker (bpAggregationID (hd bs)) intv"
  by (simp add: aggregationTaskOf_def aggregationMarker_def Marker.simps)

lemma isNew_aggregationTaskOf:
  "isNew tm jobs (AggregationTask (aggregationTaskOf intv bs))
   \<longleftrightarrow> aggregationMarker (bpAggregationID (hd bs)) intv \<notin> tm
       \<and> jobs (aggregationTaskName (bpAggregationID (hd bs)) intv) = None"
  by (simp add: isNew_def Marker_aggregationTaskOf)

lemma aBatches_aggregationTaskOf [simp]:
  "aBatches (aggregationTaskOf intv bs) = map batchOf bs"
  by (simp add: aggregationTaskOf_def)

lemma in_aggregatedBatches:
  "x \<in> aggregatedBatches tasks \<longleftrightarrow> (\<exists>a. AggregationTask a \<in> set tasks \<and> x \<in> set (aBatches a))"
  by (induction tasks) (auto simp: aggregatedBatches_def split: Task.splits)

lemma aggregatedBatches_append [simp]:
  "aggregatedBatches (xs @ ys) = aggregatedBatches xs \<union> aggregatedBatches ys"
  by (simp add: aggregatedBatches_def)

lemma aggregatedBatches_Nil [simp]: "aggregatedBatches [] = {}"
  by (simp add: aggregatedBatches_def)

lemma aggregatedBatches_intake [simp]:
  "aggregatedBatches (filter P (intakeCandidates clk lim bs)) = {}"
  by (auto simp: aggregatedBatches_def intakeCandidates_def)

lemma aggregatedBatches_set:
  "set xs = set ys \<Longrightarrow> aggregatedBatches xs = aggregatedBatches ys"
  by (simp add: aggregatedBatches_def)

text \<open>
  The batches of the new aggregation tasks of a grouped list: the batches whose group
  has neither a marker nor a job.
\<close>

lemma aggregatedBatches_groups:
  "aggregatedBatches (filter (isNew tm jobs) (aggregationCandidates intv (groupByAggregationID xs)))
     = batchOf ` {p \<in> set xs. aggregationMarker (bpAggregationID p) intv \<notin> tm
                              \<and> jobs (aggregationTaskName (bpAggregationID p) intv) = None}"
  (is "?L = ?R")
proof (rule set_eqI, rule iffI)
  fix x
  assume "x \<in> ?L"
  then obtain a where a: "AggregationTask a \<in> set (aggregationCandidates intv (groupByAggregationID xs))"
      and new: "isNew tm jobs (AggregationTask a)" and x: "x \<in> set (aBatches a)"
    using in_aggregatedBatches by auto
  from a obtain k bs where g: "(k, bs) \<in> set (groupByAggregationID xs)"
      and t: "a = aggregationTaskOf intv bs"
    by (auto simp: aggregationCandidates_def)
  note h = group_hd [OF g]
  from x t obtain p where p: "p \<in> set bs" "x = batchOf p" by auto
  have "p \<in> set xs" "bpAggregationID p = k" using p(1) h(3) by auto
  moreover have "aggregationMarker k intv \<notin> tm \<and> jobs (aggregationTaskName k intv) = None"
    using new t h(2) by (simp add: isNew_aggregationTaskOf)
  ultimately show "x \<in> ?R" using p(2) by auto
next
  fix x
  assume "x \<in> ?R"
  then obtain p where p: "p \<in> set xs" "x = batchOf p"
      and m: "aggregationMarker (bpAggregationID p) intv \<notin> tm"
             "jobs (aggregationTaskName (bpAggregationID p) intv) = None"
    by auto
  let ?bs = "filter (\<lambda>b. bpAggregationID b = bpAggregationID p) xs"
  have g: "(bpAggregationID p, ?bs) \<in> set (groupByAggregationID xs)"
    using p(1) by (simp add: in_groupByAggregationID)
  note h = group_hd [OF g]
  have "isNew tm jobs (AggregationTask (aggregationTaskOf intv ?bs))"
    using m h(2) by (simp add: isNew_aggregationTaskOf)
  moreover have "AggregationTask (aggregationTaskOf intv ?bs)
                   \<in> set (aggregationCandidates intv (groupByAggregationID xs))"
    using g by (force simp: aggregationCandidates_def)
  moreover have "x \<in> set (aBatches (aggregationTaskOf intv ?bs))"
    using p by simp
  ultimately show "x \<in> ?L" using in_aggregatedBatches by auto
qed

subsection \<open>The run\<close>

text \<open>The ways a run can go.\<close>

lemma scheduleTasks_run:
  assumes "scheduleTasks rb order config w = (st, w')"
  obtains
    (noIntake) err where "rb (intakeFiles config) ''batch'' = Inl err"
      and "st \<noteq> None" and "w' = w"
  | (intakeAborted) ib err where "rb (intakeFiles config) ''batch'' = Inr ib"
      and "enqueueIntakeTasks (clock config) (currentIntakeBatches config ib) (maxAge config)
             (taskMarkerSet (ownValidationFiles config)) (existingJobs config)
             (ownValidationBucket config) (intakeTaskEnqueuer config) w = (Some err, w')"
      and "st \<noteq> None"
  | (noValidations) ib where "rb (intakeFiles config) ''batch'' = Inr ib"
      and "enqueueIntakeTasks (clock config) (currentIntakeBatches config ib) (maxAge config)
             (taskMarkerSet (ownValidationFiles config)) (existingJobs config)
             (ownValidationBucket config) (intakeTaskEnqueuer config) w = (None, w')"
      and "st \<noteq> None"
  | (aggregated) ib own peer w1 where "rb (intakeFiles config) ''batch'' = Inr ib"
      and "rb (ownValidationFiles config) (validityInfix (isFirst config)) = Inr own"
      and "rb (peerValidationFiles config) (validityInfix (\<not> isFirst config)) = Inr peer"
      and "enqueueIntakeTasks (clock config) (currentIntakeBatches config ib) (maxAge config)
             (taskMarkerSet (ownValidationFiles config)) (existingJobs config)
             (ownValidationBucket config) (intakeTaskEnqueuer config) w = (None, w1)"
      and "aggregationLoop
             (rangeOrder order (groupByAggregationID (aggregationBatchesOf config own peer)))
             (runInterval config) (taskMarkerSet (ownValidationFiles config)) (existingJobs config)
             (ownValidationBucket config) (aggregationTaskEnqueuer config) w1 = (st, w')"
proof (cases "rb (intakeFiles config) ''batch''")
  case (Inl err)
  then show ?thesis using assms noIntake by (auto simp: scheduleTasks_def)
next
  case ib: (Inr ib)
  obtain r1 w1 where i: "enqueueIntakeTasks (clock config) (currentIntakeBatches config ib)
             (maxAge config) (taskMarkerSet (ownValidationFiles config)) (existingJobs config)
             (ownValidationBucket config) (intakeTaskEnqueuer config) w = (r1, w1)"
    by (cases "enqueueIntakeTasks (clock config) (currentIntakeBatches config ib)
             (maxAge config) (taskMarkerSet (ownValidationFiles config)) (existingJobs config)
             (ownValidationBucket config) (intakeTaskEnqueuer config) w")
  show ?thesis
  proof (cases r1)
    case (Some err)
    then show ?thesis using assms ib i intakeAborted [of ib err]
      by (auto simp: scheduleTasks_def Let_def currentIntakeBatches_def)
  next
    case None
    show ?thesis
    proof (cases "rb (ownValidationFiles config) (validityInfix (isFirst config))")
      case (Inl err)
      then show ?thesis using assms ib i None noValidations [of ib]
        by (auto simp: scheduleTasks_def Let_def currentIntakeBatches_def)
    next
      case own: (Inr own)
      show ?thesis
      proof (cases "rb (peerValidationFiles config) (validityInfix (\<not> isFirst config))")
        case (Inl err)
        then show ?thesis using assms ib i None own noValidations [of ib]
          by (auto simp: scheduleTasks_def Let_def currentIntakeBatches_def)
      next
        case peer: (Inr peer)
        show ?thesis
          using assms ib i None own peer aggregated [of ib own peer w1]
          by (simp add: scheduleTasks_def Let_def currentIntakeBatches_def
                aggregationBatchesOf_def runInterval_def enqueueAggregationTasks_loop)
      qed
    qed
  qed
qed

lemma candidates_aggregated:
  assumes "rb (intakeFiles config) ''batch'' = Inr ib"
    and "rb (ownValidationFiles config) (validityInfix (isFirst config)) = Inr own"
    and "rb (peerValidationFiles config) (validityInfix (\<not> isFirst config)) = Inr peer"
  shows "candidates rb config =
           intakeCandidates (clock config) (maxAge config) (currentIntakeBatches config ib) @
           aggregationCandidates (runInterval config)
             (groupByAggregationID (aggregationBatchesOf config own peer))"
  using assms by (simp add: candidates_def)

lemma candidates_intake:
  assumes "rb (intakeFiles config) ''batch'' = Inr ib"
  shows "set (intakeCandidates (clock config) (maxAge config) (currentIntakeBatches config ib))
           \<subseteq> set (candidates rb config)"
  using assms by (simp add: candidates_def)

lemma set_aggregationCandidates_rangeOrder [simp]:
  "set (aggregationCandidates intv (rangeOrder order m)) = set (aggregationCandidates intv m)"
  by (simp add: aggregationCandidates_def)

text \<open>Whatever way a run goes, the tasks it enqueues are new candidates.\<close>

lemma scheduleTasks_subset:
  assumes "scheduleTasks rb order config w = (st, w')"
  shows "set (enqueued w') \<subseteq> set (enqueued w) \<union>
           {t \<in> set (candidates rb config).
              isNew (taskMarkerSet (ownValidationFiles config)) (existingJobs config) t}"
  using assms
proof (cases rule: scheduleTasks_run)
  case (noIntake err)
  then show ?thesis by simp
next
  case (intakeAborted ib err)
  then show ?thesis
    using enqueueIntakeTasks_subset [OF intakeAborted(2)] candidates_intake [of rb config ib] intakeAborted(1)
    by blast
next
  case (noValidations ib)
  then show ?thesis
    using enqueueIntakeTasks_subset [OF noValidations(2)] candidates_intake [of rb config ib] noValidations(1)
    by blast
next
  case (aggregated ib own peer w1)
  show ?thesis
    using enqueueIntakeTasks_subset [OF aggregated(4)] aggregationLoop_subset [OF aggregated(5)]
    by (auto simp: candidates_aggregated [of rb config ib own peer, OF aggregated(1,2,3)])
qed

text \<open>A run that returns has enqueued the new candidates, all of them.\<close>

lemma scheduleTasks_returned:
  assumes "scheduleTasks rb order config w = (None, w')"
  obtains ib own peer where "rb (intakeFiles config) ''batch'' = Inr ib"
    and "rb (ownValidationFiles config) (validityInfix (isFirst config)) = Inr own"
    and "rb (peerValidationFiles config) (validityInfix (\<not> isFirst config)) = Inr peer"
    and "enqueued w' = enqueued w @
           filter (isNew (taskMarkerSet (ownValidationFiles config)) (existingJobs config))
             (intakeCandidates (clock config) (maxAge config) (currentIntakeBatches config ib)) @
           filter (isNew (taskMarkerSet (ownValidationFiles config)) (existingJobs config))
             (aggregationCandidates (runInterval config)
                (rangeOrder order (groupByAggregationID (aggregationBatchesOf config own peer))))"
  using assms
proof (cases rule: scheduleTasks_run)
  case (aggregated ib own peer w1)
  show ?thesis
    using that [OF aggregated(1,2,3)]
      enqueueIntakeTasks_returned [OF aggregated(4)] aggregationLoop_returned [OF aggregated(5)]
    by simp
qed simp_all

lemma scheduleTasks_returned_set:
  assumes "scheduleTasks rb order config w = (None, w')"
  shows "set (enqueued w') = set (enqueued w) \<union>
           {t \<in> set (candidates rb config).
              isNew (taskMarkerSet (ownValidationFiles config)) (existingJobs config) t}"
  using assms
proof (cases rule: scheduleTasks_returned)
  case (1 ib own peer)
  show ?thesis
    by (auto simp: 1(4) candidates_aggregated [of rb config ib own peer, OF 1(1,2,3)])
qed

text \<open>A run that returns has written the marker of every candidate to heal.\<close>

lemma scheduleTasks_heals:
  assumes "scheduleTasks rb order config w = (None, w')"
    and "t \<in> set (candidates rb config)"
    and "toHeal (taskMarkerSet (ownValidationFiles config)) (existingJobs config) t"
  shows "(Marker t, writeTaskMarker (ownValidationBucket config) (Marker t)) \<in> set (markerWrites w')
       \<and> (\<forall>err. writeTaskMarker (ownValidationBucket config) (Marker t) \<noteq> WriteFailed err)"
  using assms(1)
proof (cases rule: scheduleTasks_run)
  case (aggregated ib own peer w1)
  from assms(2) consider
      "t \<in> set (intakeCandidates (clock config) (maxAge config) (currentIntakeBatches config ib))"
    | "t \<in> set (aggregationCandidates (runInterval config)
                  (rangeOrder order (groupByAggregationID (aggregationBatchesOf config own peer))))"
    by (auto simp: candidates_aggregated [of rb config ib own peer, OF aggregated(1,2,3)])
  then show ?thesis
  proof cases
    case 1
    then show ?thesis
      using enqueueIntakeTasks_heals [OF aggregated(4) 1 assms(3)]
        aggregationLoop_markerWrites [OF aggregated(5)]
      by blast
  next
    case 2
    then show ?thesis
      using aggregationLoop_heals [OF aggregated(5) 2 assms(3)] by blast
  qed
qed simp_all


lemma not_Some_unit: "(j \<noteq> Some ()) = (j = None)"
  by (cases j) auto

lemma isNew_iff:
  "isNew tm jobs t \<longleftrightarrow> Marker t \<notin> tm \<and> (\<exists>name. taskJobName t = Inr name \<and> name \<notin> dom jobs)"
  by (auto simp: isNew_def domIff not_Some_unit split: sum.splits)

subsection \<open>The runs of the examples\<close>

lemma example_run:
  "scheduleTasks exampleReadyBatches [] (exampleConfig (exampleEnqueuer AWSSNS False) Map.empty [])
     initialWorld
   = (None, exampleWorld)"
  by code_simp

lemma example_run_failing:
  "scheduleTasks exampleReadyBatches [] (exampleConfig (exampleEnqueuer AWSSNS True) Map.empty [])
     initialWorld
   = (None, exampleFailedWorld)"
  by code_simp

lemma example_run_gcp_failing:
  "scheduleTasks exampleReadyBatches [] (exampleConfig (exampleEnqueuer GCPPubSub True) Map.empty [])
     initialWorld
   = (None,
      \<lparr>enqueued = [IntakeTask exampleIntake, AggregationTask exampleAggregation],
       markerWrites = [(''intake-agg1-2021-04-02-10-00-0f0f0f0f-0f0f-0f0f-0f0f-0f0f0f0f0f0f'', Stored),
                       (''aggregate-agg1-2021-04-02-06-00-2021-04-02-09-00'', Stored)],
       intakesStarted = 1, aggregationsStarted = 1,
       logged = [(''failed to enqueue intake task: %s'', FailedToPublishTask (Opaque ''unavailable'')),
                 (''failed to enqueue aggregation task: %s'', FailedToPublishTask (Opaque ''unavailable''))]\<rparr>)"
  by code_simp

lemma example_run_healing:
  "scheduleTasks exampleReadyBatches []
     (exampleConfig (exampleEnqueuer AWSSNS False)
        [''i-agg1-0f0f0f0f0f0f0f0f-2021-04-02-10-00'' \<mapsto> ()]
        [''task-markers/aggregate-agg1-2021-04-02-06-00-2021-04-02-09-00''])
     initialWorld
   = (None,
      \<lparr>enqueued = [],
       markerWrites = [(''intake-agg1-2021-04-02-10-00-0f0f0f0f-0f0f-0f0f-0f0f-0f0f0f0f0f0f'', Stored)],
       intakesStarted = 0, aggregationsStarted = 0, logged = []\<rparr>)"
  by code_simp

lemma example_run_marked:
  "scheduleTasks exampleReadyBatches []
     (exampleConfig (exampleEnqueuer AWSSNS False) Map.empty
        [''task-markers/aggregate-agg1-2021-04-02-06-00-2021-04-02-09-00''])
     initialWorld
   = (None,
      \<lparr>enqueued = [IntakeTask exampleIntake],
       markerWrites = [(''intake-agg1-2021-04-02-10-00-0f0f0f0f-0f0f-0f0f-0f0f-0f0f0f0f0f0f'', Stored)],
       intakesStarted = 1, aggregationsStarted = 0, logged = []\<rparr>)"
  by code_simp

text \<open>
  Scenario S1 of the specification as it is written, with the batch ID \<^verbatim>\<open>uuid-AAAA\<close>:
  the run ends in the panic of the slice expression, before any task is enqueued.
\<close>

lemma example_run_short_ID:
  "scheduleTasks exampleReadyBatches []
     ((exampleConfig (exampleEnqueuer AWSSNS False) Map.empty [])
        \<lparr>intakeFiles := [''agg1/2021/04/02/10/00/uuid-AAAA.batch'']\<rparr>)
     initialWorld
   = (Some SliceBoundsOutOfRange, initialWorld)"
  by code_simp

subsection \<open>The enqueuers\<close>

lemma AWSSNSEnqueuer_Enqueue_once:
  "\<exists>err. AWSSNSEnqueuer_Enqueue e task completion s = completion err s"
  by (auto simp: AWSSNSEnqueuer_Enqueue_def split: sum.splits option.splits)

lemma GCPPubSubEnqueuer_Enqueue_once:
  assumes "dryRun e \<or> (\<forall>message err. publish e message \<noteq> Some err)"
  shows "\<exists>err. GCPPubSubEnqueuer_Enqueue e task completion s = completion err s"
  using assms
  by (auto simp: GCPPubSubEnqueuer_Enqueue_def Let_def split: sum.splits option.splits)

lemma GCPPubSubEnqueuer_Enqueue_twice:
  assumes "jsonMarshal e task = Inr message" and "\<not> dryRun e" and "publish e message = Some err"
  shows "GCPPubSubEnqueuer_Enqueue e task completion s
           = completion None (completion (Some (FailedToPublishTask err)) s)"
  using assms by (simp add: GCPPubSubEnqueuer_Enqueue_def)

text \<open>
  C1. The PubSub enqueuer, when the publish fails, calls the completion with the error
  and then goes on to call it again with \<^verbatim>\<open>nil\<close>: two calls for one \<open>Enqueue\<close>. (The SNS
  enqueuer returns after the call with the error: lemma \<open>AWSSNSEnqueuer_Enqueue_once\<close>.)
\<close>

theorem C1_GCPPubSub_failed_publish_completes_twice:
  "GCPPubSubEnqueuer_Enqueue (exampleEnqueuer GCPPubSub True) (IntakeTask exampleIntake)
     notingCompletion []
   = [Some (FailedToPublishTask (Opaque ''unavailable'')), None]
   \<and> AWSSNSEnqueuer_Enqueue (exampleEnqueuer AWSSNS True) (IntakeTask exampleIntake)
     notingCompletion []
   = [Some (FailedToPublishTask (Opaque ''unavailable''))]"
  by (simp add: GCPPubSubEnqueuer_Enqueue_def AWSSNSEnqueuer_Enqueue_def exampleEnqueuer_def
        notingCompletion_def)

subsection \<open>The completions\<close>

lemma intakeCompletion_failed_write:
  assumes "writeTaskMarker b (Marker (IntakeTask i)) = WriteFailed err"
  shows "intakesStarted (intakeCompletion b i None w) = intakesStarted w"
    and "logged (intakeCompletion b i None w)
           = logged w @ [(''failed to write intake task marker: %s'', err)]"
  using assms by (simp_all add: intakeCompletion_def WriteTaskMarker_def Printf_def Let_def)

lemma aggregationCompletion_failed_write:
  assumes "writeTaskMarker b (Marker (AggregationTask a)) = WriteFailed err"
  shows "aggregationsStarted (aggregationCompletion b a None w) = aggregationsStarted w + 1"
    and "logged (aggregationCompletion b a None w)
           = logged w @ [(''failed to write aggregation task marker: %s'', err)]"
  using assms by (simp_all add: aggregationCompletion_def WriteTaskMarker_def Printf_def Let_def)

text \<open>
  C9. After a publish that succeeded and a marker write that failed, the completion of
  an aggregation task logs the failure and increments \<open>aggregationsStarted\<close> all the same,
  where the completion of an intake task logs and returns with \<open>intakesStarted\<close> as it
  was.
\<close>

theorem C9_aggregation_completion_counts_after_failed_write:
  "aggregationsStarted (aggregationCompletion failingBucket exampleAggregation None initialWorld) = 1
   \<and> logged (aggregationCompletion failingBucket exampleAggregation None initialWorld)
       = [(''failed to write aggregation task marker: %s'', Opaque ''denied'')]
   \<and> intakesStarted (intakeCompletion failingBucket exampleIntake None initialWorld) = 0
   \<and> logged (intakeCompletion failingBucket exampleIntake None initialWorld)
       = [(''failed to write intake task marker: %s'', Opaque ''denied'')]"
  by (simp add: aggregationCompletion_def intakeCompletion_def WriteTaskMarker_def Printf_def
        failingBucket_def initialWorld_def Let_def)

subsection \<open>The tasks of a run\<close>

text \<open>
  C3. Every task that a run of \<open>scheduleTasks\<close> passes to \<open>Enqueue\<close>, whether the run
  returns or not, has a marker that is not in the marker set of the own-validation
  listing, and a job name that is not among the existing jobs.
\<close>

theorem C3_enqueued_tasks_are_new:
  assumes "scheduleTasks rb order config initialWorld = (st, w')"
    and "task \<in> set (enqueued w')"
  shows "Marker task \<notin> taskMarkerSet (ownValidationFiles config)
       \<and> (\<exists>name. taskJobName task = Inr name \<and> name \<notin> dom (existingJobs config))"
proof -
  have "isNew (taskMarkerSet (ownValidationFiles config)) (existingJobs config) task"
    using scheduleTasks_subset [OF assms(1)] assms(2) by (auto simp: initialWorld_def)
  then show ?thesis by (simp add: isNew_iff)
qed

theorem C3_enqueued_tasks_are_new_witness:
  "IntakeTask exampleIntake
     \<in> set (enqueued (snd (scheduleTasks exampleReadyBatches []
                              (exampleConfig (exampleEnqueuer AWSSNS False) Map.empty [])
                              initialWorld)))
   \<and> Marker (IntakeTask exampleIntake)
       \<notin> taskMarkerSet (ownValidationFiles (exampleConfig (exampleEnqueuer AWSSNS False) Map.empty []))
   \<and> (\<exists>name. taskJobName (IntakeTask exampleIntake) = Inr name
         \<and> name \<notin> dom (existingJobs (exampleConfig (exampleEnqueuer AWSSNS False) Map.empty [])))"
  using C3_enqueued_tasks_are_new [OF example_run, of "IntakeTask exampleIntake"]
  by (simp add: example_run exampleWorld_def)

subsection \<open>Two runs in a row\<close>

lemma taskMarkerSet_append:
  "taskMarkerSet (xs @ ys) = taskMarkerSet xs \<union> taskMarkerSet ys"
  by (simp add: taskMarkerSet_def)

lemma taskMarkerSet_markerKeys: "taskMarkerSet (map markerKey ms) = set ms"
proof -
  have "HasPrefix (markerKey m) ''task-markers/''" for m
    by (simp add: HasPrefix_def markerKey_def)
  moreover have "TrimPrefix (markerKey m) ''task-markers/'' = m" for m
    by (simp add: TrimPrefix_def HasPrefix_def markerKey_def)
  ultimately show ?thesis by (induction ms) (simp_all add: taskMarkerSet_def)
qed

lemma isNew_mono: "isNew (tm \<union> extra) jobs t \<Longrightarrow> isNew tm jobs t"
  by (simp add: isNew_def)

text \<open>
  C2, as the claim states it, fails: when the publishes of the first run fail (here with
  the SNS enqueuer), the run enqueues two tasks and writes no marker, so that the second
  run, on the same listings, enqueues the two tasks again.
\<close>

theorem C2_failed_publish_counterexample:
  "scheduleTasks exampleReadyBatches [] (exampleConfig (exampleEnqueuer AWSSNS True) Map.empty [])
     initialWorld = (None, exampleFailedWorld)
   \<and> storedMarkers exampleFailedWorld = []
   \<and> enqueued (snd (scheduleTasks exampleReadyBatches []
        (exampleConfig (exampleEnqueuer AWSSNS True) Map.empty
           (map markerKey (storedMarkers exampleFailedWorld)))
        initialWorld))
      = [IntakeTask exampleIntake, AggregationTask exampleAggregation]"
proof -
  have s: "storedMarkers exampleFailedWorld = []"
    by (simp add: storedMarkers_def exampleFailedWorld_def)
  show ?thesis
    by (simp add: s example_run_failing) (simp add: exampleFailedWorld_def)
qed

text \<open>
  C2, amended. When the first run returns and the marker of every task it enqueued was
  stored during that run, a second run at the same clock instant, on the same listings
  and jobs, whose own-validation listing has in addition the key of every marker stored
  during the first run, and from which \<open>ReadyBatches\<close> reads the same own validations as
  from the first listing, enqueues no task, whatever its enqueuers, its marker writer and
  the order of its loop over the aggregation map are.
\<close>

theorem C2_second_run_enqueues_nothing:
  assumes "scheduleTasks rb order1 config initialWorld = (None, w1)"
    and "\<forall>task \<in> set (enqueued w1). Marker task \<in> set (storedMarkers w1)"
    and "rb (ownValidationFiles config @ map markerKey (storedMarkers w1))
            (validityInfix (isFirst config))
         = rb (ownValidationFiles config) (validityInfix (isFirst config))"
  shows "enqueued (snd (scheduleTasks rb order2
           (config\<lparr>ownValidationFiles :=
                      ownValidationFiles config @ map markerKey (storedMarkers w1),
                    intakeTaskEnqueuer := e1, aggregationTaskEnqueuer := e2,
                    ownValidationBucket := b2\<rparr>)
           initialWorld)) = []"
proof -
  let ?config2 = "config\<lparr>ownValidationFiles :=
                      ownValidationFiles config @ map markerKey (storedMarkers w1),
                    intakeTaskEnqueuer := e1, aggregationTaskEnqueuer := e2,
                    ownValidationBucket := b2\<rparr>"
  let ?tm = "taskMarkerSet (ownValidationFiles config)"
  obtain st2 w2 where run2: "scheduleTasks rb order2 ?config2 initialWorld = (st2, w2)"
    by (cases "scheduleTasks rb order2 ?config2 initialWorld")
  have c: "candidates rb ?config2 = candidates rb config"
    using assms(3)
    by (simp add: candidates_def currentIntakeBatches_def runInterval_def aggregationBatchesOf_def
          cong: sum.case_cong)
  have first: "set (enqueued w1) = {t \<in> set (candidates rb config). isNew ?tm (existingJobs config) t}"
    using scheduleTasks_returned_set [OF assms(1)] by (simp add: initialWorld_def)
  have sub: "set (enqueued w2) \<subseteq> {t \<in> set (candidates rb config).
            isNew (?tm \<union> set (storedMarkers w1)) (existingJobs config) t}"
    using scheduleTasks_subset [OF run2]
    by (simp add: initialWorld_def c taskMarkerSet_append taskMarkerSet_markerKeys)
  have none: "t \<notin> set (enqueued w2)" for t
  proof
    assume "t \<in> set (enqueued w2)"
    then have "t \<in> {t \<in> set (candidates rb config).
            isNew (?tm \<union> set (storedMarkers w1)) (existingJobs config) t}"
      using sub by (rule rev_subsetD)
    then have t: "t \<in> set (candidates rb config)"
        and n: "isNew (?tm \<union> set (storedMarkers w1)) (existingJobs config) t"
      by simp_all
    have "isNew ?tm (existingJobs config) t" using n by (rule isNew_mono)
    then have "t \<in> set (enqueued w1)" using t first by simp
    then have "Marker t \<in> set (storedMarkers w1)" using assms(2) by simp
    then show False using n by (simp add: isNew_def)
  qed
  have "enqueued w2 = []"
  proof (cases "enqueued w2")
    case Nil
    then show ?thesis .
  next
    case (Cons t ts)
    then have "t \<in> set (enqueued w2)" by simp
    then show ?thesis using none by (rule notE [rotated])
  qed
  then show ?thesis by (simp add: run2)
qed

theorem C2_second_run_enqueues_nothing_witness:
  "enqueued (snd (scheduleTasks exampleReadyBatches [0, 1]
           ((exampleConfig (exampleEnqueuer AWSSNS False) Map.empty [])
              \<lparr>ownValidationFiles :=
                 ownValidationFiles (exampleConfig (exampleEnqueuer AWSSNS False) Map.empty [])
                   @ map markerKey (storedMarkers exampleWorld),
               intakeTaskEnqueuer := exampleEnqueuer GCPPubSub False,
               aggregationTaskEnqueuer := exampleEnqueuer GCPPubSub False,
               ownValidationBucket := failingBucket\<rparr>)
           initialWorld)) = []"
proof (rule C2_second_run_enqueues_nothing [OF example_run])
  show "\<forall>task \<in> set (enqueued exampleWorld). Marker task \<in> set (storedMarkers exampleWorld)"
    by code_simp
  show "exampleReadyBatches
          (ownValidationFiles (exampleConfig (exampleEnqueuer AWSSNS False) Map.empty [])
             @ map markerKey (storedMarkers exampleWorld))
          (validityInfix (isFirst (exampleConfig (exampleEnqueuer AWSSNS False) Map.empty [])))
        = exampleReadyBatches
            (ownValidationFiles (exampleConfig (exampleEnqueuer AWSSNS False) Map.empty []))
            (validityInfix (isFirst (exampleConfig (exampleEnqueuer AWSSNS False) Map.empty [])))"
    by code_simp
qed

subsection \<open>The batches of the aggregation tasks\<close>

lemma withinInterval_set:
  "set (withinInterval bs intv)
     = {p \<in> set bs. \<not> Before (bpTime p) (ibegin intv) \<and> Before (bpTime p) (iend intv)}"
  by (auto simp: withinInterval_def)

lemma intersectValidations_set:
  "set (intersectValidations own peer) = {p \<in> set peer. bpID p \<in> bpID ` set own}"
  by (auto simp: intersectValidations_def Let_def)

text \<open>
  C5, as the claim states it, fails: with the marker of the aggregation task in the
  listing, the one batch of the intersection, which is in the window, is in no task
  that the run enqueues.
\<close>

theorem C5_marked_aggregation_counterexample:
  "exampleReadyBatches
     (ownValidationFiles (exampleConfig (exampleEnqueuer AWSSNS False) Map.empty
        [''task-markers/aggregate-agg1-2021-04-02-06-00-2021-04-02-09-00'']))
     ''validity_0'' = Inr [exampleValidationBatch]
   \<and> exampleReadyBatches
     (peerValidationFiles (exampleConfig (exampleEnqueuer AWSSNS False) Map.empty
        [''task-markers/aggregate-agg1-2021-04-02-06-00-2021-04-02-09-00'']))
     ''validity_1'' = Inr [exampleValidationBatch]
   \<and> map bpID (withinInterval (intersectValidations [exampleValidationBatch] [exampleValidationBatch])
                (aggregationInterval exampleNow (3 * Hour) Hour)) = [''uuid-B'']
   \<and> enqueued (snd (scheduleTasks exampleReadyBatches []
        (exampleConfig (exampleEnqueuer AWSSNS False) Map.empty
           [''task-markers/aggregate-agg1-2021-04-02-06-00-2021-04-02-09-00''])
        initialWorld))
      = [IntakeTask exampleIntake]"
proof -
  have a: "exampleReadyBatches
     (ownValidationFiles (exampleConfig (exampleEnqueuer AWSSNS False) Map.empty
        [''task-markers/aggregate-agg1-2021-04-02-06-00-2021-04-02-09-00'']))
     ''validity_0'' = Inr [exampleValidationBatch]" by code_simp
  have b: "exampleReadyBatches
     (peerValidationFiles (exampleConfig (exampleEnqueuer AWSSNS False) Map.empty
        [''task-markers/aggregate-agg1-2021-04-02-06-00-2021-04-02-09-00'']))
     ''validity_1'' = Inr [exampleValidationBatch]" by code_simp
  have c: "map bpID (withinInterval (intersectValidations [exampleValidationBatch] [exampleValidationBatch])
                (aggregationInterval exampleNow (3 * Hour) Hour)) = [''uuid-B'']" by code_simp
  show ?thesis using a b c by (simp add: example_run_marked)
qed

text \<open>
  C5, amended. When the run returns, the batches of the aggregation tasks it enqueued
  are the peer-validation descriptors (ID and time) whose ID is the ID of an own
  validation, whose time \<open>t\<close> is in the window, \<open>begin \<le> t < end\<close>, and whose aggregation
  ID has, for this window, neither a marker in the marker set nor an existing job; so
  the batch IDs of these tasks are the IDs of these descriptors.
\<close>

theorem C5_aggregated_batches:
  assumes "scheduleTasks rb order config initialWorld = (None, w')"
    and "rb (ownValidationFiles config) (validityInfix (isFirst config)) = Inr own"
    and "rb (peerValidationFiles config) (validityInfix (\<not> isFirst config)) = Inr peer"
  shows "aggregatedBatches (enqueued w')
           = batchOf ` {p \<in> set peer.
                 bpID p \<in> bpID ` set own
               \<and> \<not> Before (bpTime p) (ibegin (runInterval config))
               \<and> Before (bpTime p) (iend (runInterval config))
               \<and> aggregationMarker (bpAggregationID p) (runInterval config)
                   \<notin> taskMarkerSet (ownValidationFiles config)
               \<and> existingJobs config (aggregationTaskName (bpAggregationID p) (runInterval config))
                   = None}
       \<and> bID ` aggregatedBatches (enqueued w')
           = bpID ` {p \<in> set peer.
                 bpID p \<in> bpID ` set own
               \<and> \<not> Before (bpTime p) (ibegin (runInterval config))
               \<and> Before (bpTime p) (iend (runInterval config))
               \<and> aggregationMarker (bpAggregationID p) (runInterval config)
                   \<notin> taskMarkerSet (ownValidationFiles config)
               \<and> existingJobs config (aggregationTaskName (bpAggregationID p) (runInterval config))
                   = None}"
proof -
  let ?S = "{p \<in> set peer.
                 bpID p \<in> bpID ` set own
               \<and> \<not> Before (bpTime p) (ibegin (runInterval config))
               \<and> Before (bpTime p) (iend (runInterval config))
               \<and> aggregationMarker (bpAggregationID p) (runInterval config)
                   \<notin> taskMarkerSet (ownValidationFiles config)
               \<and> existingJobs config (aggregationTaskName (bpAggregationID p) (runInterval config))
                   = None}"
  from assms(1) obtain ib own' peer' where
        "rb (ownValidationFiles config) (validityInfix (isFirst config)) = Inr own'"
    and "rb (peerValidationFiles config) (validityInfix (\<not> isFirst config)) = Inr peer'"
    and e: "enqueued w' = enqueued initialWorld @
           filter (isNew (taskMarkerSet (ownValidationFiles config)) (existingJobs config))
             (intakeCandidates (clock config) (maxAge config) (currentIntakeBatches config ib)) @
           filter (isNew (taskMarkerSet (ownValidationFiles config)) (existingJobs config))
             (aggregationCandidates (runInterval config)
                (rangeOrder order (groupByAggregationID (aggregationBatchesOf config own' peer'))))"
    by (rule scheduleTasks_returned)
  then have o: "own' = own" "peer' = peer" using assms(2,3) by simp_all
  have "set (filter (isNew (taskMarkerSet (ownValidationFiles config)) (existingJobs config))
             (aggregationCandidates (runInterval config)
                (rangeOrder order (groupByAggregationID (aggregationBatchesOf config own peer)))))
      = set (filter (isNew (taskMarkerSet (ownValidationFiles config)) (existingJobs config))
             (aggregationCandidates (runInterval config)
                (groupByAggregationID (aggregationBatchesOf config own peer))))"
    by simp
  then have "aggregatedBatches (enqueued w')
      = aggregatedBatches
          (filter (isNew (taskMarkerSet (ownValidationFiles config)) (existingJobs config))
             (aggregationCandidates (runInterval config)
                (groupByAggregationID (aggregationBatchesOf config own peer))))"
    using aggregatedBatches_set by (simp add: e o initialWorld_def)
  also have "\<dots> = batchOf ` ?S"
    by (simp add: aggregatedBatches_groups aggregationBatchesOf_def withinInterval_set
          intersectValidations_set)
  finally have 1: "aggregatedBatches (enqueued w') = batchOf ` ?S" .
  have "bID ` batchOf ` ?S = bpID ` ?S"
    by (simp add: image_image batchOf_def)
  then show ?thesis using 1 by simp
qed

theorem C5_aggregated_batches_witness:
  "aggregatedBatches (enqueued exampleWorld)
     = {\<lparr>bID = ''uuid-B'', bTime = \<lparr>instant = 63752943600000000000, zoneOffset = 0\<rparr>\<rparr>}
   \<and> bID ` aggregatedBatches (enqueued exampleWorld)
     = bpID ` {p \<in> set [exampleValidationBatch].
                 bpID p \<in> bpID ` set [exampleValidationBatch]
               \<and> \<not> Before (bpTime p)
                     (ibegin (runInterval (exampleConfig (exampleEnqueuer AWSSNS False) Map.empty [])))
               \<and> Before (bpTime p)
                     (iend (runInterval (exampleConfig (exampleEnqueuer AWSSNS False) Map.empty [])))
               \<and> aggregationMarker (bpAggregationID p)
                     (runInterval (exampleConfig (exampleEnqueuer AWSSNS False) Map.empty []))
                   \<notin> taskMarkerSet
                       (ownValidationFiles (exampleConfig (exampleEnqueuer AWSSNS False) Map.empty []))
               \<and> existingJobs (exampleConfig (exampleEnqueuer AWSSNS False) Map.empty [])
                   (aggregationTaskName (bpAggregationID p)
                      (runInterval (exampleConfig (exampleEnqueuer AWSSNS False) Map.empty [])))
                   = None}"
proof -
  let ?config = "exampleConfig (exampleEnqueuer AWSSNS False) Map.empty []"
  have own: "exampleReadyBatches (ownValidationFiles ?config) (validityInfix (isFirst ?config))
               = Inr [exampleValidationBatch]"
    by code_simp
  have peer: "exampleReadyBatches (peerValidationFiles ?config) (validityInfix (\<not> isFirst ?config))
               = Inr [exampleValidationBatch]"
    by code_simp
  have b: "aggregatedBatches (enqueued exampleWorld)
     = {\<lparr>bID = ''uuid-B'', bTime = \<lparr>instant = 63752943600000000000, zoneOffset = 0\<rparr>\<rparr>}"
    by (simp add: aggregatedBatches_def exampleWorld_def exampleAggregation_def)
  show ?thesis
    using b conjunct2 [OF C5_aggregated_batches [OF example_run own peer]] by (rule conjI)
qed


subsection \<open>The loops as one procedure on candidates\<close>


lemma completionOf_enqueued: "enqueued (completionOf b t err w) = enqueued w"
  by (cases t) (simp_all add: intakeCompletion_enqueued aggregationCompletion_enqueued)

lemma completionOf_markerWrites:
  "set (markerWrites w) \<subseteq> set (markerWrites (completionOf b t err w))"
  by (cases t) (simp_all add: intakeCompletion_markerWrites aggregationCompletion_markerWrites)













lemma visited_Nil: "rb (intakeFiles config) ''batch'' = Inl err \<Longrightarrow> visited rb order config = []"
  by (simp add: visited_def)


subsection \<open>Healing\<close>






end
